theory Spec2Isabelle
  imports Main
begin

section \<open>Python values used by the bot\<close>

text \<open>
  A Python \<open>str\<close> is modelled as a HOL \<open>string\<close>, each \<open>char\<close> read as the code point
  of the same number (0 to 255).  Exceptions are values of \<open>py_error\<close>; the argument is
  what \<open>str(e)\<close> gives.  Library calls that touch the disk (\<open>save_json\<close>, \<open>os.getcwd\<close>)
  are modelled as succeeding.
\<close>

datatype py_error =
    ValueError string
  | FileNotFoundError string
  | IndexError string
  | OverflowError string
  | OSError string

fun error_text :: "py_error \<Rightarrow> string" where
  "error_text (ValueError m) = m"
| "error_text (FileNotFoundError m) = m"
| "error_text (IndexError m) = m"
| "error_text (OverflowError m) = m"
| "error_text (OSError m) = m"

text \<open>Truthiness of an optional string: \<open>None\<close> and \<open>''\<close> are false.\<close>

fun truthy :: "string option \<Rightarrow> bool" where
  "truthy None = False"
| "truthy (Some s) = (s \<noteq> [])"

text \<open>\<open>a or b\<close> for an optional string \<open>a\<close> and a string \<open>b\<close>.\<close>

definition or_else :: "string option \<Rightarrow> string \<Rightarrow> string" where
  "or_else a b = (case a of None \<Rightarrow> b | Some s \<Rightarrow> if s = [] then b else s)"

text \<open>
  \<open>str.isspace\<close> on the code points below 256, which is also what \<open>\s\<close> matches in a
  \<open>str\<close> pattern: tab to carriage return, the separators 0x1C to 0x1F, space, NEL and the
  no-break space.
\<close>

definition whitespace :: "char list" where
  "whitespace = [CHR 0x09, CHR 0x0A, CHR 0x0B, CHR 0x0C, CHR 0x0D, CHR 0x1C, CHR 0x1D,
     CHR 0x1E, CHR 0x1F, CHR 0x20, CHR 0x85, CHR 0xA0]"

definition isspace :: "char \<Rightarrow> bool" where
  "isspace c = (c \<in> set whitespace)"

text \<open>\<open>s.strip(chars)\<close>, the set of characters given as a predicate, and \<open>s.strip()\<close>.\<close>

definition strip_chars :: "(char \<Rightarrow> bool) \<Rightarrow> string \<Rightarrow> string" where
  "strip_chars p s = rev (dropWhile p (rev (dropWhile p s)))"

definition strip :: "string \<Rightarrow> string" where
  "strip s = strip_chars isspace s"

text \<open>\<open>s.startswith(p)\<close>.\<close>

fun startswith :: "string \<Rightarrow> string \<Rightarrow> bool" where
  "startswith s [] = True"
| "startswith [] (c # p) = False"
| "startswith (d # s) (c # p) = (d = c \<and> startswith s p)"

text \<open>\<open>str(n)\<close> for an \<open>int\<close>: decimal digits, with a minus sign below zero.\<close>

definition digit_char :: "nat \<Rightarrow> char" where
  "digit_char d = ''0123456789'' ! d"

fun str_nat :: "nat \<Rightarrow> string" where
  "str_nat n = (if n < 10 then [digit_char n] else str_nat (n div 10) @ [digit_char (n mod 10)])"

declare str_nat.simps [simp del]

definition str_int :: "int \<Rightarrow> string" where
  "str_int i = (if i < 0 then CHR ''-'' # str_nat (nat (- i)) else str_nat (nat i))"

text \<open>
  \<open>int(s)\<close> for a string: surrounding whitespace is dropped, one sign is allowed, and
  the rest is decimal digits with single underscores between digits.  \<open>None\<close> stands for
  the \<open>ValueError\<close> Python raises.
\<close>

definition is_digit :: "char \<Rightarrow> bool" where
  "is_digit c = (c \<in> set ''0123456789'')"

definition digit_val :: "char \<Rightarrow> nat" where
  "digit_val c = length (takeWhile (\<lambda>d. d \<noteq> c) ''0123456789'')"

fun digits_ok :: "string \<Rightarrow> bool" where
  "digits_ok [] = False"
| "digits_ok [c] = is_digit c"
| "digits_ok (c # d # r) =
     (is_digit c \<and> (if d = CHR ''_'' then digits_ok r else digits_ok (d # r)))"

definition digits_value :: "string \<Rightarrow> nat" where
  "digits_value s = foldl (\<lambda>acc c. 10 * acc + digit_val c) 0 (filter is_digit s)"

definition py_int :: "string \<Rightarrow> int option" where
  "py_int s =
     (case strip s of
        [] \<Rightarrow> None
      | c # r \<Rightarrow>
          if c = CHR ''-'' then (if digits_ok r then Some (- int (digits_value r)) else None)
          else if c = CHR ''+'' then (if digits_ok r then Some (int (digits_value r)) else None)
          else if digits_ok (c # r) then Some (int (digits_value (c # r))) else None)"

text \<open>A value read from a JSON snapshot: a string, or anything else.\<close>

datatype json = JString string | JList "json list" | JOther

section \<open>ModeStore (bot.py)\<close>

text \<open>
  The fields of \<open>ModeStore\<close>: \<open>path\<close>, \<open>default\<close> and \<open>_modes\<close>.  \<open>modes_saved\<close> is the
  snapshot \<open>_persist\<close> last wrote to \<open>path\<close> (\<open>None\<close> before the first write); the file
  holds the same map with each key rendered by \<open>str\<close>.
\<close>

record ModeStore =
  mode_path :: "string option"
  mode_default :: string
  modes :: "int \<rightharpoonup> string"
  modes_saved :: "(int \<rightharpoonup> string) option"

text \<open>\<open>m in ("command", "chat")\<close>.\<close>

definition valid_mode :: "string \<Rightarrow> bool" where
  "valid_mode m = (m = ''command'' \<or> m = ''chat'')"

text \<open>
  The dict comprehension of \<open>__init__\<close>: the entries whose value is a valid mode, keyed
  by \<open>int(k)\<close>; a later entry replaces an earlier one with the same key, and a key that
  is not an integer literal raises.
\<close>

fun load_modes :: "(string \<times> json) list \<Rightarrow> (int \<rightharpoonup> string) \<Rightarrow> py_error + (int \<rightharpoonup> string)" where
  "load_modes [] acc = Inr acc"
| "load_modes ((k, JString m) # kvs) acc =
     (if valid_mode m
      then (case py_int k of
              None \<Rightarrow> Inl (ValueError ''invalid literal for int() with base 10'')
            | Some i \<Rightarrow> load_modes kvs (acc(i \<mapsto> m)))
      else load_modes kvs acc)"
| "load_modes ((k, v) # kvs) acc = load_modes kvs acc"

text \<open>
  \<open>ModeStore.__init__\<close>; \<open>loaded\<close> is what \<open>load_json(path)\<close> returns, read only when
  \<open>path\<close> is given.
\<close>

definition ModeStore_init ::
  "string \<Rightarrow> string option \<Rightarrow> (string \<times> json) list \<Rightarrow> py_error + ModeStore" where
  "ModeStore_init default_mode p loaded =
     (let d = (if valid_mode default_mode then default_mode else ''command'');
          raw = (if truthy p then loaded else [])
      in case load_modes raw Map.empty of
           Inl e \<Rightarrow> Inl e
         | Inr ms \<Rightarrow> Inr \<lparr>mode_path = p, mode_default = d, modes = ms, modes_saved = None\<rparr>)"

definition ModeStore_persist :: "ModeStore \<Rightarrow> ModeStore" where
  "ModeStore_persist s = (if \<not> truthy (mode_path s) then s else s\<lparr>modes_saved := Some (modes s)\<rparr>)"

definition ModeStore_get :: "ModeStore \<Rightarrow> int \<Rightarrow> string" where
  "ModeStore_get s channel_id = (case modes s channel_id of None \<Rightarrow> mode_default s | Some m \<Rightarrow> m)"

text \<open>\<open>ModeStore.set\<close> returns the mode it stored, and the store after the call.\<close>

definition ModeStore_set :: "ModeStore \<Rightarrow> int \<Rightarrow> string \<Rightarrow> string \<times> ModeStore" where
  "ModeStore_set s channel_id mode =
     (let mode' = (if valid_mode mode then mode else mode_default s)
      in (mode', ModeStore_persist (s\<lparr>modes := (modes s)(channel_id \<mapsto> mode')\<rparr>)))"

text \<open>A run of \<open>set\<close> calls, in order.\<close>

fun ModeStore_sets :: "ModeStore \<Rightarrow> (int \<times> string) list \<Rightarrow> ModeStore" where
  "ModeStore_sets s [] = s"
| "ModeStore_sets s ((k, m) # ops) = ModeStore_sets (snd (ModeStore_set s k m)) ops"

text \<open>The keys a snapshot loads: the integer keys of its entries with a valid mode.\<close>

fun loaded_keys :: "(string \<times> json) list \<Rightarrow> int list" where
  "loaded_keys [] = []"
| "loaded_keys ((k, JString m) # kvs) =
     (if valid_mode m then (case py_int k of None \<Rightarrow> [] | Some i \<Rightarrow> [i]) else []) @ loaded_keys kvs"
| "loaded_keys ((k, v) # kvs) = loaded_keys kvs"

text \<open>The invariant of the store: its default and every stored value are command or chat.\<close>

definition modes_ok :: "ModeStore \<Rightarrow> bool" where
  "modes_ok s = (valid_mode (mode_default s) \<and> (\<forall>k m. modes s k = Some m \<longrightarrow> valid_mode m))"

section \<open>os.path on a POSIX host (posixpath)\<close>

text \<open>
  What the bot reads of its host: the process's current directory (an absolute path),
  which paths are directories, and the name \<open>platform.system()\<close> reports.  The path
  functions below are those of \<open>posixpath\<close>, which is \<open>os.path\<close> on Linux and macOS; on
  Windows \<open>os.path\<close> is \<open>ntpath\<close>, which is not modelled.
\<close>

record world =
  getcwd :: string
  isdir :: "string \<Rightarrow> bool"
  platform_system :: string

text \<open>\<open>s.split('/')\<close> and \<open>'/'.join(parts)\<close>.\<close>

fun split_sep :: "string \<Rightarrow> string list" where
  "split_sep [] = [[]]"
| "split_sep (c # s) =
     (if c = CHR ''/'' then [] # split_sep s
      else (c # hd (split_sep s)) # tl (split_sep s))"

fun join_sep :: "string list \<Rightarrow> string" where
  "join_sep [] = []"
| "join_sep [x] = x"
| "join_sep (x # y # xs) = x @ CHR ''/'' # join_sep (y # xs)"

text \<open>\<open>posixpath.join(a, b)\<close>.\<close>

definition path_join :: "string \<Rightarrow> string \<Rightarrow> string" where
  "path_join a b =
     (if startswith b ''/'' then b
      else if a = [] \<or> last a = CHR ''/'' then a @ b
      else a @ ''/'' @ b)"

text \<open>
  The loop of \<open>posixpath.normpath\<close> over the components: empty and \<open>.\<close> components are
  skipped, \<open>..\<close> removes the component before it, and is kept only in a relative path
  that has nothing left to remove.
\<close>

fun norm_comps :: "nat \<Rightarrow> string list \<Rightarrow> string list \<Rightarrow> string list" where
  "norm_comps initial_slashes [] new_comps = new_comps"
| "norm_comps initial_slashes (part # comps) new_comps =
     (if part = [] \<or> part = ''.'' then norm_comps initial_slashes comps new_comps
      else if part \<noteq> ''..'' \<or> (initial_slashes = 0 \<and> new_comps = [])
                \<or> (new_comps \<noteq> [] \<and> last new_comps = ''..'')
           then norm_comps initial_slashes comps (new_comps @ [part])
      else if new_comps \<noteq> [] then norm_comps initial_slashes comps (butlast new_comps)
      else norm_comps initial_slashes comps new_comps)"

declare norm_comps.simps(2) [simp del]

definition initial_slashes :: "string \<Rightarrow> nat" where
  "initial_slashes p =
     (if startswith p ''/''
      then (if startswith p ''//'' \<and> \<not> startswith p ''///'' then 2 else 1)
      else 0)"

definition normpath :: "string \<Rightarrow> string" where
  "normpath p =
     (if p = [] then ''.''
      else let q = replicate (initial_slashes p) (CHR ''/'')
                     @ join_sep (norm_comps (initial_slashes p) (split_sep p) [])
           in if q = [] then ''.'' else q)"

definition abspath :: "world \<Rightarrow> string \<Rightarrow> string" where
  "abspath w p = normpath (if startswith p ''/'' then p else path_join (getcwd w) p)"

text \<open>
  \<open>posixpath.relpath(path, start)\<close> for a non-empty \<open>path\<close> (the bot passes a result of
  \<open>abspath\<close>, which is never empty).
\<close>

fun common_prefix :: "string list \<Rightarrow> string list \<Rightarrow> nat" where
  "common_prefix (x # xs) (y # ys) = (if x = y then Suc (common_prefix xs ys) else 0)"
| "common_prefix xs ys = 0"

definition relpath :: "world \<Rightarrow> string \<Rightarrow> string \<Rightarrow> string" where
  "relpath w p start =
     (let start_list = filter (\<lambda>x. x \<noteq> []) (split_sep (abspath w start));
          path_list = filter (\<lambda>x. x \<noteq> []) (split_sep (abspath w p));
          i = common_prefix start_list path_list;
          rel_list = replicate (length start_list - i) ''..'' @ drop i path_list
      in if rel_list = [] then ''.'' else join_sep rel_list)"

section \<open>Regular expressions (re.match)\<close>

text \<open>
  The part of Python's \<open>re\<close> the bot's three patterns use, with the backtracking order of
  \<open>re.match\<close>: a greedy repetition tries the longest run first, an alternation its left
  branch first.  \<open>rmatch\<close> lists every way a pattern matches at a position, in the
  order a backtracking matcher finds them, so the first is the match \<open>re.match\<close> returns.
\<close>

datatype cset = Space | NoneOf "char list" | Dot

fun in_cset :: "cset \<Rightarrow> char \<Rightarrow> bool" where
  "in_cset Space c = isspace c"
| "in_cset (NoneOf cs) c = (c \<notin> set cs)"
| "in_cset Dot c = (c \<noteq> CHR 0x0A)"

datatype regex =
    Bol
  | Eol
  | Lit string
  | Plus cset
  | Star cset
  | Group regex
  | Alt regex regex
  | Seq regex regex

text \<open>The lengths of the runs of characters of a class a string starts with, longest first.\<close>

fun spans :: "(char \<Rightarrow> bool) \<Rightarrow> string \<Rightarrow> nat list" where
  "spans p [] = [0]"
| "spans p (c # s) = (if p c then map Suc (spans p s) @ [0] else [0])"

text \<open>
  \<open>re.IGNORECASE\<close> on a literal of ASCII letters: below code point 256 only the two
  ASCII cases of a letter match it.
\<close>

definition lower :: "char \<Rightarrow> char" where
  "lower c =
     (case map_of (zip ''ABCDEFGHIJKLMNOPQRSTUVWXYZ'' ''abcdefghijklmnopqrstuvwxyz'') c of
        None \<Rightarrow> c
      | Some d \<Rightarrow> d)"

definition eq_text :: "bool \<Rightarrow> string \<Rightarrow> string \<Rightarrow> bool" where
  "eq_text ignorecase a b = (if ignorecase then map lower a = map lower b else a = b)"

text \<open>
  A state of the matcher: the characters consumed, the rest of the text, and the groups
  closed so far (the patterns have no nested group, so this is their numbering).
  \<open>$\<close> matches at the end of the text and before a newline that ends it; \<open>.\<close> matches
  every character but a newline.
\<close>

type_synonym mstate = "nat \<times> string \<times> string list"

fun rmatch :: "bool \<Rightarrow> regex \<Rightarrow> mstate \<Rightarrow> mstate list" where
  "rmatch ic Bol (pos, s, gs) = (if pos = 0 then [(pos, s, gs)] else [])"
| "rmatch ic Eol (pos, s, gs) = (if s = [] \<or> s = [CHR 0x0A] then [(pos, s, gs)] else [])"
| "rmatch ic (Lit l) (pos, s, gs) =
     (if length l \<le> length s \<and> eq_text ic (take (length l) s) l
      then [(pos + length l, drop (length l) s, gs)] else [])"
| "rmatch ic (Plus cs) (pos, s, gs) =
     map (\<lambda>n. (pos + n, drop n s, gs)) (filter (\<lambda>n. 0 < n) (spans (in_cset cs) s))"
| "rmatch ic (Star cs) (pos, s, gs) =
     map (\<lambda>n. (pos + n, drop n s, gs)) (spans (in_cset cs) s)"
| "rmatch ic (Group r) (pos, s, gs) =
     map (\<lambda>(pos', s', gs'). (pos', s', gs' @ [take (pos' - pos) s])) (rmatch ic r (pos, s, gs))"
| "rmatch ic (Alt a b) st = rmatch ic a st @ rmatch ic b st"
| "rmatch ic (Seq a b) st = concat (map (rmatch ic b) (rmatch ic a st))"

fun seqs :: "regex list \<Rightarrow> regex" where
  "seqs [] = Lit []"
| "seqs [r] = r"
| "seqs (r # rs) = Seq r (seqs rs)"

text \<open>\<open>re.match(pattern, text, flags)\<close>: the groups of the first match, or \<open>None\<close>.\<close>

definition re_match :: "bool \<Rightarrow> regex \<Rightarrow> string \<Rightarrow> string list option" where
  "re_match ic r s = (case rmatch ic r (0, s, []) of [] \<Rightarrow> None | (pos, rest, gs) # ms \<Rightarrow> Some gs)"

text \<open>\<open>m.group(i)\<close>.\<close>

definition group :: "string list \<Rightarrow> nat \<Rightarrow> string" where
  "group gs i = (if 0 < i \<and> i \<le> length gs then gs ! (i - 1) else [])"

text \<open>
  The patterns of \<open>_preprocess_command_for_cwd\<close>:
  \<^verbatim>\<open>^(?:Set-Location|cd)\s+([^;&]+)(?:\s*;|\s*&&\s*|\s*$)(.*)$\<close> (Windows, ignoring case),
  \<^verbatim>\<open>^cd\s+([^;&]+)(?:\s*;|\s*&&\s*|\s*$)(.*)$\<close> (elsewhere), and
  \<^verbatim>\<open>^(?:Set-Location|cd)\s*$\<close> for a bare \<open>cd\<close>.
\<close>

definition cd_tail :: "regex list" where
  "cd_tail =
     [Plus Space, Group (Plus (NoneOf '';&'')),
      Alt (Seq (Star Space) (Lit '';''))
        (Alt (seqs [Star Space, Lit ''&&'', Star Space]) (Seq (Star Space) Eol)),
      Group (Star Dot), Eol]"

definition cd_regex_windows :: regex where
  "cd_regex_windows = seqs ([Bol, Alt (Lit ''Set-Location'') (Lit ''cd'')] @ cd_tail)"

definition cd_regex :: regex where
  "cd_regex = seqs ([Bol, Lit ''cd''] @ cd_tail)"

definition bare_cd_regex :: regex where
  "bare_cd_regex = seqs [Bol, Alt (Lit ''Set-Location'') (Lit ''cd''), Star Space, Eol]"

section \<open>CwdStore (bot.py)\<close>

text \<open>
  The fields of \<open>CwdStore\<close>: \<open>base\<close>, \<open>path\<close> and \<open>_cwd\<close>; \<open>cwd_saved\<close> is the snapshot
  \<open>_persist\<close> last wrote.
\<close>

record CwdStore =
  cwd_base :: string
  cwd_path :: "string option"
  cwd_map :: "int \<rightharpoonup> string"
  cwd_saved :: "(int \<rightharpoonup> string) option"

text \<open>
  The loop of \<open>__init__\<close> over the loaded snapshot: an entry is kept when its key is an
  integer literal and its value is a path that starts with \<open>base\<close> and is a directory;
  the \<open>except\<close> clause skips every other entry.
\<close>

fun load_cwds :: "world \<Rightarrow> string \<Rightarrow> (string \<times> json) list \<Rightarrow> (int \<rightharpoonup> string) \<Rightarrow> (int \<rightharpoonup> string)" where
  "load_cwds w b [] acc = acc"
| "load_cwds w b ((k, JString v) # kvs) acc =
     (case py_int k of
        None \<Rightarrow> load_cwds w b kvs acc
      | Some cid \<Rightarrow>
          (let abs_v = abspath w v
           in if startswith abs_v b \<and> isdir w abs_v
              then load_cwds w b kvs (acc(cid \<mapsto> abs_v))
              else load_cwds w b kvs acc))"
| "load_cwds w b ((k, v) # kvs) acc = load_cwds w b kvs acc"

definition CwdStore_init :: "world \<Rightarrow> string \<Rightarrow> string option \<Rightarrow> (string \<times> json) list \<Rightarrow> CwdStore" where
  "CwdStore_init w base_dir p loaded =
     (let b = abspath w base_dir;
          raw = (if truthy p then loaded else [])
      in \<lparr>cwd_base = b, cwd_path = p, cwd_map = load_cwds w b raw Map.empty, cwd_saved = None\<rparr>)"

definition CwdStore_persist :: "CwdStore \<Rightarrow> CwdStore" where
  "CwdStore_persist s = (if \<not> truthy (cwd_path s) then s else s\<lparr>cwd_saved := Some (cwd_map s)\<rparr>)"

definition CwdStore_get :: "CwdStore \<Rightarrow> int \<Rightarrow> string" where
  "CwdStore_get s channel_id = (case cwd_map s channel_id of None \<Rightarrow> cwd_base s | Some d \<Rightarrow> d)"

text \<open>
  \<open>CwdStore.set\<close>: the directory stored, or the exception raised, and the store after
  the call.
\<close>

definition CwdStore_set :: "world \<Rightarrow> CwdStore \<Rightarrow> int \<Rightarrow> string \<Rightarrow> (py_error + string) \<times> CwdStore" where
  "CwdStore_set w s channel_id new_dir =
     (let absd = abspath w new_dir
      in if \<not> startswith absd (cwd_base s)
         then (Inl (ValueError ''Path escapes WORK_DIR sandbox''), s)
         else if \<not> isdir w absd
         then (Inl (FileNotFoundError ''Directory does not exist''), s)
         else (Inr absd, CwdStore_persist (s\<lparr>cwd_map := (cwd_map s)(channel_id \<mapsto> absd)\<rparr>)))"

section \<open>Directory changes (bot.py)\<close>

text \<open>
  \<open>_resolve_cd_target\<close>; \<open>work_dir\<close> is the module's \<open>WORK_DIR\<close> and \<open>s\<close> its \<open>cwd_store\<close>.
\<close>

definition resolve_cd_target :: "world \<Rightarrow> string \<Rightarrow> CwdStore \<Rightarrow> int \<Rightarrow> string option \<Rightarrow> string" where
  "resolve_cd_target w work_dir s channel_id arg =
     (case arg of
        None \<Rightarrow> abspath w work_dir
      | Some a \<Rightarrow>
          if a = [] \<or> strip a = [] then abspath w work_dir
          else abspath w (path_join (CwdStore_get s channel_id) (strip a)))"

definition changed_message :: "world \<Rightarrow> string \<Rightarrow> string \<Rightarrow> string" where
  "changed_message w work_dir newd =
     ''Changed directory to `'' @ relpath w newd (abspath w work_dir) @ ''`''"

definition failed_message :: "py_error \<Rightarrow> string" where
  "failed_message e = ''Failed to change directory: '' @ error_text e"

text \<open>
  \<open>_preprocess_command_for_cwd\<close>: the pair it returns, and \<open>cwd_store\<close> after the call.
\<close>

definition preprocess_command_for_cwd ::
  "world \<Rightarrow> string \<Rightarrow> CwdStore \<Rightarrow> int \<Rightarrow> string \<Rightarrow> bool
     \<Rightarrow> (string option \<times> string option) \<times> CwdStore" where
  "preprocess_command_for_cwd w work_dir s channel_id command is_windows =
     (let text = strip command
      in if text = [] then ((None, None), s)
         else
           case re_match is_windows (if is_windows then cd_regex_windows else cd_regex) text of
             None \<Rightarrow>
               if re_match is_windows bare_cd_regex text \<noteq> None
               then (case CwdStore_set w s channel_id (resolve_cd_target w work_dir s channel_id None) of
                       (Inr newd, s') \<Rightarrow> ((None, Some (changed_message w work_dir newd)), s')
                     | (Inl e, s') \<Rightarrow> ((None, Some (failed_message e)), s'))
               else ((Some text, None), s)
           | Some gs \<Rightarrow>
               (let path_arg = strip_chars (\<lambda>c. c = CHR 0x27)
                                 (strip_chars (\<lambda>c. c = CHR 0x22) (strip (group gs 1)));
                    remainder = strip (group gs 2)
                in case CwdStore_set w s channel_id
                          (resolve_cd_target w work_dir s channel_id (Some path_arg)) of
                     (Inl e, s') \<Rightarrow> ((None, Some (failed_message e)), s')
                   | (Inr newd, s') \<Rightarrow>
                       if remainder \<noteq> [] then ((Some remainder, None), s')
                       else ((None, Some (changed_message w work_dir newd)), s')))"

section \<open>Floating point in summarize_output\<close>

text \<open>
  \<open>int(limit * 0.6)\<close> converts \<open>limit\<close> to a double, multiplies two doubles and truncates
  the product towards zero.  A double is an integer of at most 53 bits times a power of
  two, so the computation is modelled exactly on integers: \<open>round_to_53 n\<close> is the
  multiple of a power of two with at most 53 significant bits nearest to \<open>n\<close>, ties going
  to the even one (round-half-even, Python's conversion and IEEE 754 multiplication).
  The constants are the doubles nearest to 0.6 and 0.35, in units of \<open>2 ^ -53\<close>.
\<close>

fun bit_length :: "nat \<Rightarrow> nat" where
  "bit_length n = (if n = 0 then 0 else Suc (bit_length (n div 2)))"

declare bit_length.simps [simp del]

definition round_to_53 :: "nat \<Rightarrow> nat" where
  "round_to_53 n =
     (let sh = bit_length n - 53;
          q = n div 2 ^ sh;
          r = n mod 2 ^ sh
      in (if 2 ^ sh < 2 * r \<or> (2 * r = 2 ^ sh \<and> odd q) then q + 1 else q) * 2 ^ sh)"

definition double_0_6 :: nat where
  "double_0_6 = 5404319552844595"

definition double_0_35 :: nat where
  "double_0_35 = 3152519739159347"

text \<open>
  \<open>int(limit * c)\<close> for the double \<open>c = mc / 2 ^ 53\<close>; the conversion of \<open>limit\<close> raises
  \<open>OverflowError\<close> when it rounds to \<open>2 ^ 1024\<close> or more.
\<close>

definition float_mul_trunc :: "int \<Rightarrow> nat \<Rightarrow> py_error + int" where
  "float_mul_trunc limit mc =
     (let a = round_to_53 (nat \<bar>limit\<bar>)
      in if 2 ^ 1024 \<le> a then Inl (OverflowError ''int too large to convert to float'')
         else let p = round_to_53 (a * mc) div 2 ^ 53
              in Inr (if limit < 0 then - int p else int p))"

section \<open>summarize_output (command_runner.py)\<close>

text \<open>The slices \<open>text[:k]\<close> and \<open>text[k:]\<close>; a negative index counts from the end.\<close>

definition slice_to :: "string \<Rightarrow> int \<Rightarrow> string" where
  "slice_to text k = (if 0 \<le> k then take (nat k) text else take (length text - nat (- k)) text)"

definition slice_from :: "string \<Rightarrow> int \<Rightarrow> string" where
  "slice_from text k = (if 0 \<le> k then drop (nat k) text else drop (length text - nat (- k)) text)"

definition omitted_marker :: "int \<Rightarrow> string" where
  "omitted_marker n =
     ''\<newline>...\<newline>[omitted '' @ str_int n @ '' chars]\<newline>...\<newline>''"

definition summarize_output :: "string \<Rightarrow> int \<Rightarrow> py_error + string" where
  "summarize_output text limit =
     (if int (length text) \<le> limit then Inr text
      else case float_mul_trunc limit double_0_6 of
             Inl e \<Rightarrow> Inl e
           | Inr h \<Rightarrow>
               (case float_mul_trunc limit double_0_35 of
                  Inl e \<Rightarrow> Inl e
                | Inr t \<Rightarrow>
                    (let head = slice_to text h;
                         tail = slice_from text (- t);
                         omitted = int (length text) - int (length head) - int (length tail)
                     in Inr (head @ omitted_marker omitted @ tail))))"

section \<open>os_utils.py\<close>

record OSInfo =
  os_name :: string
  os_shell :: string
  os_is_windows :: bool

text \<open>\<open>detect_os\<close>, as a function of what \<open>platform.system()\<close> returns.\<close>

definition detect_os :: "string \<Rightarrow> OSInfo" where
  "detect_os sys_name =
     (if sys_name = ''Windows''
      then \<lparr>os_name = ''Windows'', os_shell = ''powershell'', os_is_windows = True\<rparr>
      else if sys_name = ''Darwin''
      then \<lparr>os_name = ''Darwin'', os_shell = ''/bin/bash'', os_is_windows = False\<rparr>
      else \<lparr>os_name = ''Linux'', os_shell = ''/bin/bash'', os_is_windows = False\<rparr>)"

definition wrap_command_for_shell :: "string \<Rightarrow> OSInfo \<Rightarrow> string list" where
  "wrap_command_for_shell command osinfo =
     (if os_is_windows osinfo
      then [os_shell osinfo, ''-NoLogo'', ''-NoProfile'', ''-Command'', command]
      else [os_shell osinfo, ''-lc'', command])"

section \<open>run_command (command_runner.py)\<close>

record CommandResult =
  res_command :: string
  exit_code :: int
  stdout :: string
  stderr :: string

text \<open>
  What the host does with a child process, as \<open>run_command\<close> observes it:
  \<open>create_subprocess_exec\<close> raises, or \<open>communicate\<close> finishes within the timeout with the
  return code and the two streams (given here as the text \<open>decode(errors='replace')\<close>
  yields, the empty text for an empty stream), or \<open>wait_for\<close> raises \<open>TimeoutError\<close>.
  An invoker gives this outcome, and the host after it, for an argument vector, a
  working directory and a timeout; it stands for the operating system and is a
  parameter of the model.  The type of a timeout is left open.
\<close>

datatype outcome = SpawnFailed py_error | Completed "int option" string string | TimedOut

type_synonym 't invoker = "world \<Rightarrow> string list \<Rightarrow> string \<Rightarrow> 't \<Rightarrow> outcome \<times> world"

text \<open>The calls \<open>run_command\<close> makes on the child process, in order.\<close>

datatype proc_action = Spawn "string list" string | Communicate | Kill | Wait

text \<open>
  \<open>run_command\<close>: the result or the exception of \<open>create_subprocess_exec\<close>, the calls
  made on the child, and the host afterwards.
\<close>

definition run_command ::
  "'t invoker \<Rightarrow> world \<Rightarrow> string \<Rightarrow> string option \<Rightarrow> 't
     \<Rightarrow> (py_error + CommandResult) \<times> proc_action list \<times> world" where
  "run_command invoke w command work_dir timeout =
     (let osinfo = detect_os (platform_system w);
          argv = wrap_command_for_shell command osinfo;
          cwd = or_else work_dir (getcwd w)
      in case invoke w argv cwd timeout of
           (SpawnFailed e, w') \<Rightarrow> (Inl e, [Spawn argv cwd], w')
         | (TimedOut, w') \<Rightarrow>
             (Inr \<lparr>res_command = command, exit_code = 124, stdout = [],
                   stderr = ''Command timed out''\<rparr>,
              [Spawn argv cwd, Communicate, Kill, Wait], w')
         | (Completed returncode out err, w') \<Rightarrow>
             (Inr \<lparr>res_command = command,
                   exit_code = (case returncode of None \<Rightarrow> 0 | Some c \<Rightarrow> c),
                   stdout = out, stderr = err\<rparr>,
              [Spawn argv cwd, Communicate], w'))"

section \<open>to_commands_from_nl (gemini_client.py)\<close>

text \<open>
  The end of \<open>to_commands_from_nl\<close>.  \<open>loaded\<close> is the value \<open>json.loads\<close> gives for the
  bracketed part of the reply (\<open>None\<close> when the reply has none, or it does not parse);
  \<open>one\<close> is the command the single-step fallback generates.  \<open>arr[:max_steps]\<close> is a
  slice, so a negative \<open>max_steps\<close> drops from the end.
\<close>

fun json_string :: "json \<Rightarrow> string option" where
  "json_string (JString s) = Some s"
| "json_string v = None"

definition slice_list_to :: "'a list \<Rightarrow> int \<Rightarrow> 'a list" where
  "slice_list_to xs k = (if 0 \<le> k then take (nat k) xs else take (length xs - nat (- k)) xs)"

definition to_commands_from_nl :: "json option \<Rightarrow> int \<Rightarrow> string \<Rightarrow> string list" where
  "to_commands_from_nl loaded max_steps one =
     (case loaded of
        Some (JList arr) \<Rightarrow>
          (case those (map json_string arr) of
             Some strs \<Rightarrow> slice_list_to strs max_steps
           | None \<Rightarrow> [one])
      | _ \<Rightarrow> [one])"

section \<open>on_message in chat mode (bot.py)\<close>

text \<open>
  The module's configuration and the invoker, and the state a message handler works on:
  \<open>cwd_store\<close>, the host, the messages sent to the channel and the calls made on child
  processes, both in order.
\<close>

record 't config =
  WORK_DIR :: string
  COMMAND_TIMEOUT_SEC :: 't
  invoke :: "'t invoker"

record bot =
  cwd_store :: CwdStore
  host :: world
  sent :: "string list"
  procs :: "proc_action list"

definition send :: "bot \<Rightarrow> string \<Rightarrow> bot" where
  "send b msg = b\<lparr>sent := sent b @ [msg]\<rparr>"

text \<open>
  The report of a result: \<open>prefix\<close>, the exit code, and the summarised streams that are
  not empty.  \<open>summarize_output\<close> is called with its default limit 1800.
\<close>

definition stream_part :: "string \<Rightarrow> string \<Rightarrow> string \<Rightarrow> py_error + string" where
  "stream_part label text ending =
     (if text = [] then Inr []
      else case summarize_output text 1800 of
             Inl e \<Rightarrow> Inl e
           | Inr s \<Rightarrow> Inr (label @ '':\<newline>'' @ s @ ending))"

definition build_report :: "string \<Rightarrow> CommandResult \<Rightarrow> py_error + string" where
  "build_report prefix result =
     (case stream_part ''stdout'' (stdout result) ''\<newline>'' of
        Inl e \<Rightarrow> Inl e
      | Inr out \<Rightarrow>
          (case stream_part ''stderr'' (stderr result) [] of
             Inl e \<Rightarrow> Inl e
           | Inr err \<Rightarrow>
               Inr (prefix @ ''exit='' @ str_int (exit_code result) @ ''\<newline>'' @ out @ err)))"

text \<open>How a step of a plan ends: the loop goes on, it breaks, or an exception leaves it.\<close>

datatype step_end = Continue | Stopped | Raised py_error

definition step_tag :: "nat \<Rightarrow> nat \<Rightarrow> string" where
  "step_tag idx n = ''['' @ str_nat idx @ ''/'' @ str_nat n @ ''] ''"

text \<open>The body of the loop over \<open>enumerate(commands, start=1)\<close>, for step \<open>idx\<close> of \<open>n\<close>.\<close>

definition plan_step ::
  "'t config \<Rightarrow> int \<Rightarrow> string \<Rightarrow> nat \<Rightarrow> nat \<Rightarrow> string \<Rightarrow> bot \<Rightarrow> step_end \<times> bot" where
  "plan_step cfg key osname n idx cmd b =
     (case preprocess_command_for_cwd (host b) (WORK_DIR cfg) (cwd_store b) key cmd
             (os_is_windows (detect_os (platform_system (host b)))) of
        ((remainder, changed), store') \<Rightarrow>
          if truthy changed \<and> \<not> truthy remainder
          then (Continue, send (b\<lparr>cwd_store := store'\<rparr>) (step_tag idx n @ or_else changed []))
          else
            (let b1 = send (b\<lparr>cwd_store := store'\<rparr>) (step_tag idx n @ ''$ '' @ cmd)
             in case run_command (invoke cfg) (host b1) (or_else remainder cmd)
                       (Some (CwdStore_get store' key)) (COMMAND_TIMEOUT_SEC cfg) of
                  (Inl e, acts, w') \<Rightarrow> (Raised e, b1\<lparr>host := w', procs := procs b1 @ acts\<rparr>)
                | (Inr result, acts, w') \<Rightarrow>
                    (let b2 = b1\<lparr>host := w', procs := procs b1 @ acts\<rparr>
                     in case build_report (''OS: '' @ osname @ ''\<newline>'') result of
                          Inl e \<Rightarrow> (Raised e, b2)
                        | Inr msg \<Rightarrow>
                            if exit_code result \<noteq> 0
                            then (Stopped,
                                  send (send b2 msg)
                                    (''Stopped due to error at step '' @ str_nat idx @ ''.''))
                            else (Continue, send b2 msg))))"

fun plan_loop ::
  "'t config \<Rightarrow> int \<Rightarrow> string \<Rightarrow> nat \<Rightarrow> nat \<Rightarrow> string list \<Rightarrow> bot \<Rightarrow> step_end \<times> bot" where
  "plan_loop cfg key osname n idx [] b = (Continue, b)"
| "plan_loop cfg key osname n idx (cmd # cmds) b =
     (case plan_step cfg key osname n idx cmd b of
        (Continue, b') \<Rightarrow> plan_loop cfg key osname n (Suc idx) cmds b'
      | (r, b') \<Rightarrow> (r, b'))"

text \<open>The branch for a plan of at most one command, from \<open>command = commands[0]\<close> on.\<close>

definition run_single :: "'t config \<Rightarrow> int \<Rightarrow> string \<Rightarrow> bot \<Rightarrow> py_error option \<times> bot" where
  "run_single cfg key command b =
     (case preprocess_command_for_cwd (host b) (WORK_DIR cfg) (cwd_store b) key command
             (os_is_windows (detect_os (platform_system (host b)))) of
        ((remainder, changed), store') \<Rightarrow>
          if truthy changed \<and> \<not> truthy remainder
          then (None, send (b\<lparr>cwd_store := store'\<rparr>) (or_else changed []))
          else
            (case run_command (invoke cfg) (host b) (or_else remainder command)
                    (Some (CwdStore_get store' key)) (COMMAND_TIMEOUT_SEC cfg) of
               (Inl e, acts, w') \<Rightarrow>
                 (Some e, b\<lparr>cwd_store := store', host := w', procs := procs b @ acts\<rparr>)
             | (Inr result, acts, w') \<Rightarrow>
                 (let b2 = b\<lparr>cwd_store := store', host := w', procs := procs b @ acts\<rparr>
                  in case build_report
                            (''OS: '' @ os_name (detect_os (platform_system w')) @ ''\<newline>$ ''
                               @ command @ ''\<newline>'') result of
                       Inl e \<Rightarrow> (Some e, b2)
                     | Inr msg \<Rightarrow> (None, send b2 msg))))"

text \<open>
  The characters that follow \<open>sequentially\<close> in the planning notice, as the UTF-8 bytes
  of the source file.
\<close>

definition notice_tail :: string where
  "notice_tail = [CHR 0xC3, CHR 0xA2, CHR 0xE2, CHR 0x82, CHR 0xAC, CHR 0xC2, CHR 0xA6]"

definition planning_notice :: "nat \<Rightarrow> string" where
  "planning_notice n =
     ''Planning '' @ str_nat n @ '' step(s). Executing sequentially'' @ notice_tail"

text \<open>
  \<open>on_message\<close> in chat mode, from the list \<open>to_commands_from_nl\<close> returned: the
  exception that leaves the handler, if any, and the state afterwards.
\<close>

definition on_message_chat :: "'t config \<Rightarrow> int \<Rightarrow> string list \<Rightarrow> bot \<Rightarrow> py_error option \<times> bot" where
  "on_message_chat cfg key commands b =
     (if length commands \<le> 1
      then (case commands of
              [] \<Rightarrow> (Some (IndexError ''list index out of range''), b)
            | command # rest \<Rightarrow> run_single cfg key command b)
      else
        (let b1 = send b (planning_notice (length commands));
             osname = os_name (detect_os (platform_system (host b1)))
         in case plan_loop cfg key osname (length commands) 1 commands b1 of
              (Raised e, b') \<Rightarrow> (Some e, b')
            | (r, b') \<Rightarrow> (None, b')))"

section \<open>Reference notions and example hosts\<close>

text \<open>
  A component of a normalised absolute path: not empty, not \<open>.\<close> or \<open>..\<close>, and without a
  separator.
\<close>

definition clean :: "string \<Rightarrow> bool" where
  "clean c = (c \<noteq> [] \<and> c \<noteq> ''.'' \<and> c \<noteq> ''..'' \<and> CHR ''/'' \<notin> set c)"

text \<open>
  Containment as the specification words it: a path is inside a root when it is the root
  or a descendant of it, that is, the root followed by a separator and more.
\<close>

definition spec_contained :: "string \<Rightarrow> string \<Rightarrow> bool" where
  "spec_contained root p =
     (p = root \<or> startswith p (if root \<noteq> [] \<and> last root = CHR ''/'' then root else root @ ''/''))"

text \<open>
  A host whose process runs in \<open>/srv\<close>, with \<open>WORK_DIR = work\<close>.  Beside the sandbox root
  \<open>/srv/work\<close> and its subdirectory \<open>sub\<close> there is a sibling directory \<open>/srv/work2\<close>.
  \<open>store1\<close> is the store \<open>CwdStore("work", ".data/cwd.json")\<close> builds there from an empty
  snapshot.
\<close>

definition host1 :: world where
  "host1 = \<lparr>getcwd = ''/srv'',
            isdir = (\<lambda>p. p \<in> set [''/srv'', ''/srv/work'', ''/srv/work/sub'', ''/srv/work2'']),
            platform_system = ''Linux''\<rparr>"

definition store1 :: CwdStore where
  "store1 = \<lparr>cwd_base = ''/srv/work'', cwd_path = Some ''.data/cwd.json'', cwd_map = Map.empty,
             cwd_saved = None\<rparr>"

text \<open>
  \<open>store2\<close> is \<open>store1\<close> with session 1 in \<open>/srv/work/sub\<close>.  On \<open>host_gone\<close> the directory
  \<open>/srv/work\<close> and everything below it has been removed since.
\<close>

definition store2 :: CwdStore where
  "store2 = store1\<lparr>cwd_map := [1 \<mapsto> ''/srv/work/sub'']\<rparr>"

definition host_gone :: world where
  "host_gone = \<lparr>getcwd = ''/srv'', isdir = (\<lambda>p. p \<in> set [''/srv'']), platform_system = ''Linux''\<rparr>"

text \<open>An invoker under which \<open>sleep 100\<close> outlasts the timeout and every other command succeeds.\<close>

definition invoke_sleep :: "nat invoker" where
  "invoke_sleep w argv cwd timeout =
     (if last argv = ''sleep 100'' then (TimedOut, w) else (Completed (Some 0) [] [], w))"

text \<open>
  An invoker under which \<open>mkdir x\<close> exits with code 1 and every other command succeeds,
  the configuration with it, and a handler state on \<open>host1\<close> with nothing sent yet.
\<close>

definition invoke_mkdir_fails :: "nat invoker" where
  "invoke_mkdir_fails w argv cwd timeout =
     (if last argv = ''mkdir x''
      then (Completed (Some 1) [] ''mkdir: cannot create directory'', w)
      else (Completed (Some 0) ''ok'' [], w))"

definition config1 :: "nat config" where
  "config1 = \<lparr>WORK_DIR = ''work'', COMMAND_TIMEOUT_SEC = 60, invoke = invoke_mkdir_fails\<rparr>"

definition bot1 :: bot where
  "bot1 = \<lparr>cwd_store = store1, host = host1, sent = [], procs = []\<rparr>"

section \<open>Properties of ModeStore\<close>

lemma load_modes_valid:
  "load_modes kvs acc = Inr ms \<Longrightarrow> (\<And>k m. acc k = Some m \<Longrightarrow> valid_mode m) \<Longrightarrow>
   ms k = Some m \<Longrightarrow> valid_mode m"
proof (induction kvs acc arbitrary: ms rule: load_modes.induct)
  case (1 acc)
  then show ?case by simp
next
  case (2 k' m' kvs acc)
  show ?case
  proof (cases "valid_mode m'")
    case False
    with 2 show ?thesis by simp
  next
    case True
    then obtain i where i: "py_int k' = Some i"
      using "2.prems"(1) by (cases "py_int k'") auto
    have "load_modes kvs (acc(i \<mapsto> m')) = Inr ms"
      using "2.prems"(1) True i by simp
    moreover have "\<And>k m. (acc(i \<mapsto> m')) k = Some m \<Longrightarrow> valid_mode m"
      using "2.prems"(2) True by (auto split: if_splits)
    ultimately show ?thesis
      using "2.IH"(1)[OF True i] "2.prems"(3) by blast
  qed
qed (auto)

lemma load_modes_keys:
  "load_modes kvs acc = Inr ms \<Longrightarrow> k \<notin> set (loaded_keys kvs) \<Longrightarrow> ms k = acc k"
proof (induction kvs acc arbitrary: ms rule: load_modes.induct)
  case (2 k' m' kvs acc)
  show ?case
  proof (cases "valid_mode m'")
    case False
    with 2 show ?thesis by simp
  next
    case True
    then obtain i where i: "py_int k' = Some i"
      using "2.prems"(1) by (cases "py_int k'") auto
    have "load_modes kvs (acc(i \<mapsto> m')) = Inr ms"
      using "2.prems"(1) True i by simp
    moreover have "k \<notin> set (loaded_keys kvs)" "k \<noteq> i"
      using "2.prems"(2) True i by auto
    ultimately show ?thesis
      using "2.IH"(1)[OF True i] by fastforce
  qed
qed (auto)

lemma ModeStore_init_ok: "ModeStore_init dm p loaded = Inr s \<Longrightarrow> modes_ok s"
  unfolding ModeStore_init_def modes_ok_def Let_def
  by (auto split: sum.splits simp: valid_mode_def dest: load_modes_valid)

lemma ModeStore_set_ok: "modes_ok s \<Longrightarrow> modes_ok (snd (ModeStore_set s k m))"
  unfolding ModeStore_set_def ModeStore_persist_def modes_ok_def Let_def
  by auto

lemma ModeStore_set_default [simp]: "mode_default (snd (ModeStore_set s k m)) = mode_default s"
  unfolding ModeStore_set_def ModeStore_persist_def Let_def by simp

lemma ModeStore_set_other: "k' \<noteq> k \<Longrightarrow> modes (snd (ModeStore_set s k m)) k' = modes s k'"
  unfolding ModeStore_set_def ModeStore_persist_def Let_def by simp

lemma ModeStore_sets_ok: "modes_ok s \<Longrightarrow> modes_ok (ModeStore_sets s ops)"
  by (induction s ops rule: ModeStore_sets.induct) (auto intro: ModeStore_set_ok)

lemma ModeStore_sets_default [simp]: "mode_default (ModeStore_sets s ops) = mode_default s"
  by (induction s ops rule: ModeStore_sets.induct) auto

lemma ModeStore_sets_other:
  "k \<notin> fst ` set ops \<Longrightarrow> modes (ModeStore_sets s ops) k = modes s k"
  by (induction s ops rule: ModeStore_sets.induct) (auto simp: ModeStore_set_other)

text \<open>
  C10.  For a store built by \<open>__init__\<close> and changed by any run of \<open>set\<close> calls:
  \<open>get\<close> of a key that the snapshot did not load and no call set returns the store's
  default mode; \<open>set\<close> with a mode outside command and chat returns the default mode and
  stores it under the key (it does not raise: \<open>ModeStore_set\<close> has no error result);
  and the default and every value of the map are command or chat.
\<close>

theorem ModeStore_only_valid_modes:
  assumes "ModeStore_init default_mode p loaded = Inr s0"
      and "s = ModeStore_sets s0 ops"
  shows "(k \<notin> set (loaded_keys loaded) \<and> k \<notin> fst ` set ops \<longrightarrow>
            ModeStore_get s k = mode_default s)
       \<and> (\<not> valid_mode mode \<longrightarrow>
            fst (ModeStore_set s k mode) = mode_default s
          \<and> modes (snd (ModeStore_set s k mode)) = (modes s)(k \<mapsto> mode_default s)
          \<and> ModeStore_get (snd (ModeStore_set s k mode)) k = mode_default s)
       \<and> mode_default s = (if valid_mode default_mode then default_mode else ''command'')
       \<and> valid_mode (mode_default s)
       \<and> (\<forall>c m. modes s c = Some m \<longrightarrow> valid_mode m)
       \<and> (\<forall>c m v. modes (snd (ModeStore_set s c v)) c = Some m \<longrightarrow> valid_mode m)"
proof -
  have ok0: "modes_ok s0"
    using assms(1) by (rule ModeStore_init_ok)
  have ok: "modes_ok s"
    using ok0 assms(2) by (simp add: ModeStore_sets_ok)
  have d0: "mode_default s0 = (if valid_mode default_mode then default_mode else ''command'')"
    using assms(1) unfolding ModeStore_init_def Let_def by (auto split: sum.splits)
  have unset: "modes s k = None" if "k \<notin> set (loaded_keys loaded)" "k \<notin> fst ` set ops"
  proof -
    have "modes s k = modes s0 k"
      using that(2) assms(2) by (simp add: ModeStore_sets_other)
    moreover have "modes s0 k = None"
    proof (cases "truthy p")
      case True
      then obtain ms where "load_modes loaded Map.empty = Inr ms" "modes s0 = ms"
        using assms(1) unfolding ModeStore_init_def Let_def by (auto split: sum.splits)
      then show ?thesis
        using load_modes_keys[of loaded Map.empty ms k] that(1) by simp
    next
      case False
      then show ?thesis
        using assms(1) unfolding ModeStore_init_def Let_def by (auto split: sum.splits)
    qed
    ultimately show ?thesis by simp
  qed
  have a: "k \<notin> set (loaded_keys loaded) \<and> k \<notin> fst ` set ops \<longrightarrow>
            ModeStore_get s k = mode_default s"
    using unset by (simp add: ModeStore_get_def)
  have b: "\<not> valid_mode mode \<longrightarrow>
            fst (ModeStore_set s k mode) = mode_default s
          \<and> modes (snd (ModeStore_set s k mode)) = (modes s)(k \<mapsto> mode_default s)
          \<and> ModeStore_get (snd (ModeStore_set s k mode)) k = mode_default s"
    unfolding ModeStore_set_def ModeStore_persist_def ModeStore_get_def Let_def by simp
  have c: "mode_default s = (if valid_mode default_mode then default_mode else ''command'')"
    using d0 assms(2) by simp
  have d: "valid_mode (mode_default s)" "\<forall>c m. modes s c = Some m \<longrightarrow> valid_mode m"
    using ok unfolding modes_ok_def by auto
  have e: "\<forall>c m v. modes (snd (ModeStore_set s c v)) c = Some m \<longrightarrow> valid_mode m"
    using ModeStore_set_ok[OF ok] unfolding modes_ok_def by blast
  from a b c d e show ?thesis by blast
qed

theorem ModeStore_only_valid_modes_witness:
  "ModeStore_init ''chat'' (Some ''modes.json'') [(''7'', JString ''chat''), (''x'', JOther)]
     = Inr \<lparr>mode_path = Some ''modes.json'', mode_default = ''chat'', modes = [7 \<mapsto> ''chat''],
            modes_saved = None\<rparr>
   \<and> ModeStore_get (ModeStore_sets \<lparr>mode_path = Some ''modes.json'', mode_default = ''chat'',
          modes = [7 \<mapsto> ''chat''], modes_saved = None\<rparr> [(1, ''command''), (2, ''bogus'')]) 3 = ''chat''
   \<and> fst (ModeStore_set (ModeStore_sets \<lparr>mode_path = Some ''modes.json'', mode_default = ''chat'',
          modes = [7 \<mapsto> ''chat''], modes_saved = None\<rparr> [(1, ''command''), (2, ''bogus'')]) 3 ''bogus'') = ''chat''
   \<and> modes (ModeStore_sets \<lparr>mode_path = Some ''modes.json'', mode_default = ''chat'',
          modes = [7 \<mapsto> ''chat''], modes_saved = None\<rparr> [(1, ''command''), (2, ''bogus'')]) 2 = Some ''chat''"
proof -
  let ?s0 = "\<lparr>mode_path = Some ''modes.json'', mode_default = ''chat'', modes = [7 \<mapsto> ''chat''],
            modes_saved = None\<rparr>"
  have i7: "py_int ''7'' = Some 7"
    by (simp add: py_int_def strip_def strip_chars_def isspace_def whitespace_def is_digit_def
        digits_value_def digit_val_def)
  have init: "ModeStore_init ''chat'' (Some ''modes.json'') [(''7'', JString ''chat''), (''x'', JOther)] = Inr ?s0"
    by (simp add: ModeStore_init_def valid_mode_def i7)
  have keys: "(3::int) \<notin> set (loaded_keys [(''7'', JString ''chat''), (''x'', JOther)])"
    by (simp add: valid_mode_def i7)
  have ops: "(3::int) \<notin> fst ` set [(1, ''command''), (2::int, ''bogus'')]"
    by simp
  have bad: "\<not> valid_mode ''bogus''"
    by (simp add: valid_mode_def)
  have two: "modes (ModeStore_sets ?s0 [(1, ''command''), (2, ''bogus'')]) 2 = Some ''chat''"
    by (simp add: ModeStore_set_def ModeStore_persist_def valid_mode_def Let_def)
  note th = ModeStore_only_valid_modes[OF init refl, of 3 "[(1, ''command''), (2, ''bogus'')]" "''bogus''"]
  have d: "mode_default (ModeStore_sets ?s0 [(1, ''command''), (2, ''bogus'')]) = ''chat''"
    by simp
  have g: "ModeStore_get (ModeStore_sets ?s0 [(1, ''command''), (2, ''bogus'')]) 3 = ''chat''"
    using th keys ops d by metis
  have f: "fst (ModeStore_set (ModeStore_sets ?s0 [(1, ''command''), (2, ''bogus'')]) 3 ''bogus'') = ''chat''"
    using th bad d by metis
  from init g f two show ?thesis by blast
qed

section \<open>Properties of the path functions\<close>

lemma split_sep_nonempty [simp]: "split_sep s \<noteq> []"
  by (induction s) auto

lemma split_sep_no_sep: "c \<in> set (split_sep s) \<Longrightarrow> CHR ''/'' \<notin> set c"
proof (induction s arbitrary: c)
  case Nil
  then show ?case by simp
next
  case (Cons a s)
  obtain x xs where x: "split_sep s = x # xs"
    by (cases "split_sep s") auto
  show ?case
  proof (cases "a = CHR ''/''")
    case True
    with Cons show ?thesis by auto
  next
    case False
    with Cons x show ?thesis by auto
  qed
qed

lemma norm_comps_skip:
  "part = [] \<or> part = ''.'' \<Longrightarrow> norm_comps i (part # comps) acc = norm_comps i comps acc"
  by (simp only: norm_comps.simps if_True)

lemma norm_comps_name:
  "part \<noteq> [] \<Longrightarrow> part \<noteq> ''.'' \<Longrightarrow> part \<noteq> ''..'' \<Longrightarrow>
   norm_comps i (part # comps) acc = norm_comps i comps (acc @ [part])"
  by (simp only: norm_comps.simps simp_thms if_True if_False)

lemma norm_comps_up:
  assumes "0 < i" "\<not> (acc \<noteq> [] \<and> last acc = ''..'')"
  shows "norm_comps i (''..'' # comps) acc = norm_comps i comps (butlast acc)"
proof -
  have c1: "\<not> (''..'' = [] \<or> ''..'' = ''.'')" by simp
  have c2: "\<not> (''..'' \<noteq> ''..'' \<or> (i = 0 \<and> acc = []) \<or> (acc \<noteq> [] \<and> last acc = ''..''))"
    using assms by blast
  have "norm_comps i (''..'' # comps) acc =
          (if acc \<noteq> [] then norm_comps i comps (butlast acc) else norm_comps i comps acc)"
    by (simp only: norm_comps.simps c1 c2 if_False)
  then show ?thesis by (cases acc) simp_all
qed

lemma clean_not_up: "clean c \<Longrightarrow> c \<noteq> ''..''"
  unfolding clean_def by blast

lemma clean_name: "clean c \<Longrightarrow> c \<noteq> [] \<and> c \<noteq> ''.'' \<and> c \<noteq> ''..''"
  unfolding clean_def by blast

lemma clean_no_sep: "clean c \<Longrightarrow> CHR ''/'' \<notin> set c"
  unfolding clean_def by blast

lemma cleanI: "c \<noteq> [] \<Longrightarrow> c \<noteq> ''.'' \<Longrightarrow> c \<noteq> ''..'' \<Longrightarrow> CHR ''/'' \<notin> set c \<Longrightarrow> clean c"
  unfolding clean_def by blast

lemma norm_comps_clean:
  "0 < i \<Longrightarrow> \<forall>c\<in>set acc. clean c \<Longrightarrow> \<forall>c\<in>set xs. CHR ''/'' \<notin> set c \<Longrightarrow>
   \<forall>c\<in>set (norm_comps i xs acc). clean c"
proof (induction xs arbitrary: acc)
  case Nil
  then show ?case by simp
next
  case (Cons x xs)
  have xs: "\<forall>c\<in>set xs. CHR ''/'' \<notin> set c"
    using Cons.prems(3) by simp
  have step: "\<And>acc'. \<forall>c\<in>set acc'. clean c \<Longrightarrow> \<forall>c\<in>set (norm_comps i xs acc'). clean c"
    using Cons.IH[OF Cons.prems(1) _ xs] by blast
  have la: "\<not> (acc \<noteq> [] \<and> last acc = ''..'')"
    using Cons.prems(2) last_in_set[of acc] clean_not_up by blast
  consider (skip) "x = [] \<or> x = ''.''" | (up) "x = ''..''" | (name) "x \<noteq> []" "x \<noteq> ''.''" "x \<noteq> ''..''"
    by blast
  then show ?case
  proof cases
    case skip
    show ?thesis
      unfolding norm_comps_skip[OF skip] by (rule step[OF Cons.prems(2)])
  next
    case up
    have bl: "\<forall>c\<in>set (butlast acc). clean c"
      using Cons.prems(2) by (meson in_set_butlastD)
    show ?thesis
      unfolding up norm_comps_up[OF Cons.prems(1) la] by (rule step[OF bl])
  next
    case name
    have "CHR ''/'' \<notin> set x" using Cons.prems(3) by simp
    then have "clean x" using name cleanI by blast
    then have app: "\<forall>c\<in>set (acc @ [x]). clean c"
      using Cons.prems(2) by simp
    show ?thesis
      unfolding norm_comps_name[OF name] by (rule step[OF app])
  qed
qed

lemma norm_comps_of_clean:
  "\<forall>c\<in>set xs. clean c \<Longrightarrow> norm_comps i xs acc = acc @ xs"
proof (induction xs arbitrary: acc)
  case Nil
  then show ?case by simp
next
  case (Cons x xs)
  have x: "x \<noteq> []" "x \<noteq> ''.''" "x \<noteq> ''..''"
    using Cons.prems clean_name by simp_all
  have "norm_comps i (x # xs) acc = norm_comps i xs (acc @ [x])"
    by (rule norm_comps_name[OF x])
  also have "\<dots> = (acc @ [x]) @ xs"
    using Cons.IH Cons.prems by simp
  finally show ?case by simp
qed

lemma norm_comps_skip_empty: "norm_comps i (replicate n [] @ xs) acc = norm_comps i xs acc"
  by (induction n) (simp_all add: norm_comps_skip)

lemma split_sep_join_clean:
  "xs \<noteq> [] \<Longrightarrow> \<forall>c\<in>set xs. CHR ''/'' \<notin> set c \<Longrightarrow> split_sep (join_sep xs) = xs"
proof (induction xs rule: join_sep.induct)
  case 1
  then show ?case by simp
next
  case (2 x)
  then show ?case by (induction x) auto
next
  case (3 x y xs)
  have IH: "split_sep (join_sep (y # xs)) = y # xs"
    using 3 by simp
  have "CHR ''/'' \<notin> set x" using 3 by simp
  then have "split_sep (x @ CHR ''/'' # join_sep (y # xs)) = x # split_sep (join_sep (y # xs))"
    by (induction x) auto
  then show ?case using IH by simp
qed

lemma split_sep_slashes:
  "split_sep (replicate n (CHR ''/'') @ r) = replicate n [] @ split_sep r"
  by (induction n) auto

lemma split_sep_only_slashes:
  "split_sep (replicate n (CHR ''/'')) = replicate n [] @ [[]]"
  using split_sep_slashes[of n "[]"] by simp

lemma join_sep_no_slash_head:
  "\<forall>c\<in>set xs. clean c \<Longrightarrow> \<not> startswith (join_sep xs) ''/''"
proof (induction xs rule: join_sep.induct)
  case 1
  then show ?case by simp
next
  case (2 x)
  then show ?case by (cases x) (auto simp: clean_def)
next
  case (3 x y xs)
  then show ?case by (cases x) (auto simp: clean_def)
qed

lemma initial_slashes_cases: "startswith p ''/'' \<Longrightarrow> initial_slashes p = 1 \<or> initial_slashes p = 2"
  by (simp add: initial_slashes_def)

lemma initial_slashes_normal:
  assumes "\<forall>c\<in>set xs. clean c" "i = 1 \<or> i = 2"
  shows "initial_slashes (replicate i (CHR ''/'') @ join_sep xs) = i"
proof -
  have h: "\<not> startswith (join_sep xs) ''/''"
    using assms(1) by (rule join_sep_no_slash_head)
  show ?thesis
  proof (cases "join_sep xs")
    case Nil
    with assms(2) show ?thesis
      by (auto simp: initial_slashes_def numeral_2_eq_2)
  next
    case (Cons a r)
    with h have "a \<noteq> CHR ''/''" by simp
    with Cons assms(2) show ?thesis
      by (auto simp: initial_slashes_def numeral_2_eq_2)
  qed
qed

lemma normpath_normal:
  assumes "\<forall>c\<in>set xs. clean c" "i = 1 \<or> i = 2"
  shows "normpath (replicate i (CHR ''/'') @ join_sep xs) = replicate i (CHR ''/'') @ join_sep xs"
proof -
  let ?q = "replicate i (CHR ''/'') @ join_sep xs"
  have i: "initial_slashes ?q = i"
    using assms by (rule initial_slashes_normal)
  have ne: "?q \<noteq> []" using assms(2) by auto
  have nc: "norm_comps i (split_sep ?q) [] = xs"
  proof (cases "xs = []")
    case True
    then show ?thesis
      using norm_comps_skip_empty[of i i "[[]]" "[]"]
      by (simp add: split_sep_only_slashes norm_comps_skip)
  next
    case False
    have "\<forall>c\<in>set xs. CHR ''/'' \<notin> set c"
      using assms(1) by (simp add: clean_def)
    then have "split_sep (join_sep xs) = xs"
      using False split_sep_join_clean by blast
    then show ?thesis
      using norm_comps_skip_empty[of i i xs "[]"] norm_comps_of_clean[OF assms(1), of i "[]"]
      by (simp add: split_sep_slashes)
  qed
  show ?thesis
    unfolding normpath_def Let_def using ne i nc by simp
qed

lemma normpath_absolute_form:
  assumes "startswith p ''/''"
  shows "\<exists>i xs. (i = 1 \<or> i = 2) \<and> (\<forall>c\<in>set xs. clean c)
           \<and> normpath p = replicate i (CHR ''/'') @ join_sep xs"
proof -
  define i where "i = initial_slashes p"
  define xs where "xs = norm_comps i (split_sep p) []"
  have i: "i = 1 \<or> i = 2"
    unfolding i_def using assms by (rule initial_slashes_cases)
  have "\<forall>c\<in>set (split_sep p). CHR ''/'' \<notin> set c"
    using split_sep_no_sep by blast
  then have cl: "\<forall>c\<in>set xs. clean c"
    unfolding xs_def using norm_comps_clean[of i "[]" "split_sep p"] i by auto
  have p: "p \<noteq> []" using assms by auto
  have q: "replicate i (CHR ''/'') @ join_sep xs \<noteq> []" using i by auto
  have "normpath p = replicate i (CHR ''/'') @ join_sep xs"
    using p q unfolding normpath_def Let_def i_def[symmetric] xs_def[symmetric] by simp
  with i cl show ?thesis by blast
qed

lemma normpath_idem: "startswith p ''/'' \<Longrightarrow> normpath (normpath p) = normpath p"
proof -
  assume "startswith p ''/''"
  then obtain i xs where "i = 1 \<or> i = 2" "\<forall>c\<in>set xs. clean c"
      "normpath p = replicate i (CHR ''/'') @ join_sep xs"
    using normpath_absolute_form by blast
  then show ?thesis using normpath_normal[of xs i] by simp
qed

lemma normpath_absolute: "startswith p ''/'' \<Longrightarrow> startswith (normpath p) ''/''"
proof -
  assume "startswith p ''/''"
  then obtain i xs where "i = 1 \<or> i = 2" "normpath p = replicate i (CHR ''/'') @ join_sep xs"
    using normpath_absolute_form by blast
  then show ?thesis by (auto simp: numeral_2_eq_2)
qed

lemma path_join_absolute: "startswith a ''/'' \<Longrightarrow> startswith (path_join a b) ''/''"
  by (cases a) (auto simp: path_join_def)

lemma abspath_absolute: "startswith (getcwd w) ''/'' \<Longrightarrow> startswith (abspath w p) ''/''"
  by (simp add: abspath_def normpath_absolute path_join_absolute)

lemma abspath_idem: "startswith (getcwd w) ''/'' \<Longrightarrow> abspath w (abspath w p) = abspath w p"
proof -
  assume a: "startswith (getcwd w) ''/''"
  let ?x = "if startswith p ''/'' then p else path_join (getcwd w) p"
  have x: "startswith ?x ''/''" using a by (simp add: path_join_absolute)
  have "abspath w (abspath w p) = normpath (abspath w p)"
    using abspath_absolute[OF a, of p] by (simp add: abspath_def)
  also have "\<dots> = normpath (normpath ?x)" by (simp add: abspath_def)
  also have "\<dots> = normpath ?x" using x by (rule normpath_idem)
  finally show ?thesis by (simp add: abspath_def)
qed

lemma startswith_refl [simp]: "startswith s s"
  by (induction s) auto

lemma common_prefix_refl [simp]: "common_prefix xs xs = length xs"
  by (induction xs) auto

lemma relpath_same: "relpath w p p = ''.''"
  by (simp add: relpath_def Let_def)

lemma normpath_nonempty: "normpath p \<noteq> []"
  by (simp add: normpath_def Let_def)

section \<open>Properties of CwdStore\<close>

lemma abspath_work: "abspath host1 ''work'' = ''/srv/work''"
  by code_simp

lemma store1_init: "CwdStore_init host1 ''work'' (Some ''.data/cwd.json'') [] = store1"
  by (simp add: CwdStore_init_def store1_def abspath_work)


lemma CwdStore_set_missing:
  "startswith (abspath w d) (cwd_base s) \<Longrightarrow> \<not> isdir w (abspath w d) \<Longrightarrow>
   CwdStore_set w s k d = (Inl (FileNotFoundError ''Directory does not exist''), s)"
  by (simp add: CwdStore_set_def)

lemma CwdStore_set_stored:
  "startswith (abspath w d) (cwd_base s) \<Longrightarrow> isdir w (abspath w d) \<Longrightarrow>
   CwdStore_set w s k d =
     (Inr (abspath w d), CwdStore_persist (s\<lparr>cwd_map := (cwd_map s)(k \<mapsto> abspath w d)\<rparr>))"
  by (simp add: CwdStore_set_def Let_def)

lemma CwdStore_set_failure_keeps: "fst (CwdStore_set w s k d) = Inl e \<Longrightarrow> snd (CwdStore_set w s k d) = s"
  by (auto simp: CwdStore_set_def Let_def split: if_splits)

lemma CwdStore_get_after_set:
  "CwdStore_set w s k d = (Inr a, s') \<Longrightarrow> CwdStore_get s' k = a"
  by (auto simp: CwdStore_set_def CwdStore_persist_def CwdStore_get_def Let_def split: if_splits)

text \<open>
  C1.  \<open>set\<close> tests containment by \<open>absd.startswith(self.base)\<close>, a comparison of
  characters.  With the root \<open>/srv/work\<close>, the existing directory \<open>/srv/work2\<close> is neither
  the root nor a descendant of it, yet \<open>set\<close> accepts it: it returns the path and stores
  it for the session, where the claim requires the sandbox error.
\<close>

theorem CwdStore_set_accepts_sibling:
  "\<not> spec_contained (cwd_base store1) (abspath host1 ''/srv/work2'')
   \<and> fst (CwdStore_set host1 store1 1 ''/srv/work2'') = Inr ''/srv/work2''
   \<and> CwdStore_get (snd (CwdStore_set host1 store1 1 ''/srv/work2'')) 1 = ''/srv/work2''"
  by code_simp

section \<open>Properties of the directory-change interception\<close>

lemma preprocess_empty:
  "strip command = [] \<Longrightarrow> preprocess_command_for_cwd w wd s k command iw = ((None, None), s)"
  by (simp add: preprocess_command_for_cwd_def)

lemma preprocess_other:
  assumes "strip command \<noteq> []"
      and "re_match iw (if iw then cd_regex_windows else cd_regex) (strip command) = None"
      and "re_match iw bare_cd_regex (strip command) = None"
  shows "preprocess_command_for_cwd w wd s k command iw = ((Some (strip command), None), s)"
  using assms by (simp add: preprocess_command_for_cwd_def Let_def)

lemma preprocess_bare:
  assumes "strip command \<noteq> []"
      and "re_match iw (if iw then cd_regex_windows else cd_regex) (strip command) = None"
      and "re_match iw bare_cd_regex (strip command) \<noteq> None"
  shows "preprocess_command_for_cwd w wd s k command iw =
           (case CwdStore_set w s k (abspath w wd) of
              (Inr newd, s') \<Rightarrow> ((None, Some (changed_message w wd newd)), s')
            | (Inl e, s') \<Rightarrow> ((None, Some (failed_message e)), s'))"
  using assms by (simp add: preprocess_command_for_cwd_def Let_def resolve_cd_target_def)


lemma cd_is_bare:
  "re_match False cd_regex ''cd'' = None" "re_match False bare_cd_regex ''cd'' \<noteq> None"
  by code_simp+

lemma startswith_take: "startswith s p \<longleftrightarrow> length p \<le> length s \<and> take (length p) s = p"
  by (induction s p rule: startswith.induct) auto

lemma cd_regex_shape: "\<exists>R. cd_regex = Seq Bol (Seq (Lit ''cd'') R)"
  by (simp add: cd_regex_def cd_tail_def)

lemma bare_cd_regex_shape:
  "\<exists>R. bare_cd_regex = Seq Bol (Seq (Alt (Lit ''Set-Location'') (Lit ''cd'')) R)"
  by (simp add: bare_cd_regex_def)

lemma Lit_no_prefix: "\<not> startswith text l \<Longrightarrow> rmatch False (Lit l) (pos, text, gs) = []"
  by (simp add: startswith_take eq_text_def)

lemma no_cd_prefix_no_match:
  assumes "\<not> startswith text ''cd''"
  shows "re_match False cd_regex text = None"
    and "\<not> startswith text ''Set-Location'' \<Longrightarrow> re_match False bare_cd_regex text = None"
proof -
  have cd: "rmatch False (Lit ''cd'') (0, text, []) = []"
    using assms by (rule Lit_no_prefix)
  obtain R where R: "cd_regex = Seq Bol (Seq (Lit ''cd'') R)"
    using cd_regex_shape by blast
  have "rmatch False cd_regex (0, text, []) = []"
    unfolding R using cd by simp
  then show "re_match False cd_regex text = None"
    by (simp add: re_match_def)
  assume "\<not> startswith text ''Set-Location''"
  then have sl: "rmatch False (Lit ''Set-Location'') (0, text, []) = []"
    by (rule Lit_no_prefix)
  obtain R' where R': "bare_cd_regex = Seq Bol (Seq (Alt (Lit ''Set-Location'') (Lit ''cd'')) R')"
    using bare_cd_regex_shape by blast
  have "rmatch False bare_cd_regex (0, text, []) = []"
    unfolding R' using cd sl by simp
  then show "re_match False bare_cd_regex text = None"
    by (simp add: re_match_def)
qed

text \<open>
  C7 (as amended).  For every session key, a bare \<open>cd\<close> on a host that is not Windows
  resets the session's directory to the sandbox root and returns the acknowledgement
  \<open>Changed directory to `.`\<close> with no residual command, provided the root is a directory
  when the instruction arrives.  When it is not, \<open>set\<close> raises, the session's directory
  stays as it was, and the message reports the failure.  The root is \<open>abspath(WORK_DIR)\<close>,
  as \<open>CwdStore.__init__\<close> computes it, and the process's current directory is absolute.
\<close>

theorem bare_cd_resets_when_root_exists:
  assumes "startswith (getcwd w) ''/''"
      and "cwd_base s = abspath w work_dir"
      and "strip command = ''cd''"
  shows "(isdir w (cwd_base s) \<longrightarrow>
            fst (preprocess_command_for_cwd w work_dir s k command False)
              = (None, Some ''Changed directory to `.`'')
          \<and> CwdStore_get (snd (preprocess_command_for_cwd w work_dir s k command False)) k
              = cwd_base s)
       \<and> (\<not> isdir w (cwd_base s) \<longrightarrow>
            preprocess_command_for_cwd w work_dir s k command False
              = ((None, Some ''Failed to change directory: Directory does not exist''), s))"
proof -
  have idem: "abspath w (abspath w work_dir) = abspath w work_dir"
    using assms(1) by (rule abspath_idem)
  have pre: "preprocess_command_for_cwd w work_dir s k command False =
           (case CwdStore_set w s k (abspath w work_dir) of
              (Inr newd, s') \<Rightarrow> ((None, Some (changed_message w work_dir newd)), s')
            | (Inl e, s') \<Rightarrow> ((None, Some (failed_message e)), s'))"
    using preprocess_bare[of command False w work_dir s k] cd_is_bare assms(3) by simp
  have sw: "startswith (abspath w (abspath w work_dir)) (cwd_base s)"
    using idem assms(2) by simp
  have a: "fst (preprocess_command_for_cwd w work_dir s k command False)
              = (None, Some ''Changed directory to `.`'')
          \<and> CwdStore_get (snd (preprocess_command_for_cwd w work_dir s k command False)) k
              = cwd_base s" if d: "isdir w (cwd_base s)"
  proof -
    have "isdir w (abspath w (abspath w work_dir))"
      using d idem assms(2) by simp
    then have set: "CwdStore_set w s k (abspath w work_dir) =
        (Inr (cwd_base s), CwdStore_persist (s\<lparr>cwd_map := (cwd_map s)(k \<mapsto> cwd_base s)\<rparr>))"
      using CwdStore_set_stored[OF sw] idem assms(2) by simp
    have msg: "changed_message w work_dir (cwd_base s) = ''Changed directory to `.`''"
      using assms(2) by (simp add: changed_message_def relpath_same)
    show ?thesis
      using pre set msg CwdStore_get_after_set[OF set] by simp
  qed
  have b: "preprocess_command_for_cwd w work_dir s k command False
              = ((None, Some ''Failed to change directory: Directory does not exist''), s)"
    if d: "\<not> isdir w (cwd_base s)"
  proof -
    have "\<not> isdir w (abspath w (abspath w work_dir))"
      using d idem assms(2) by simp
    then have "CwdStore_set w s k (abspath w work_dir) =
        (Inl (FileNotFoundError ''Directory does not exist''), s)"
      using CwdStore_set_missing[OF sw] by simp
    then show ?thesis using pre by (simp add: failed_message_def)
  qed
  from a b show ?thesis by blast
qed

theorem bare_cd_resets_when_root_exists_witness:
  "startswith (getcwd host1) ''/'' \<and> cwd_base store2 = abspath host1 ''work''
   \<and> isdir host1 (cwd_base store2)
   \<and> CwdStore_get store2 1 = ''/srv/work/sub''
   \<and> fst (preprocess_command_for_cwd host1 ''work'' store2 1 ''cd'' False)
        = (None, Some ''Changed directory to `.`'')
   \<and> CwdStore_get (snd (preprocess_command_for_cwd host1 ''work'' store2 1 ''cd'' False)) 1
        = ''/srv/work''"
proof -
  have h1: "startswith (getcwd host1) ''/''" by (simp add: host1_def)
  have h2: "cwd_base store2 = abspath host1 ''work''"
    by (simp add: store2_def store1_def abspath_work)
  have h3: "strip ''cd'' = ''cd''" by code_simp
  have h4: "isdir host1 (cwd_base store2)" by (simp add: store2_def store1_def host1_def)
  have h5: "CwdStore_get store2 1 = ''/srv/work/sub''"
    by (simp add: store2_def CwdStore_get_def)
  have h6: "cwd_base store2 = ''/srv/work''" by (simp add: store2_def store1_def)
  from bare_cd_resets_when_root_exists[OF h1 h2 h3, of 1] h1 h2 h4 h5 h6
  show ?thesis by simp
qed

text \<open>
  The claim as stated (always resets and acknowledges) fails on a host where the root
  is no longer a directory: the session stays in \<open>/srv/work/sub\<close> and the reply is the
  failure message.
\<close>

theorem bare_cd_fails_without_root:
  "cwd_base store2 = abspath host_gone ''work''
   \<and> CwdStore_get store2 1 = ''/srv/work/sub''
   \<and> fst (preprocess_command_for_cwd host_gone ''work'' store2 1 ''cd'' False)
        = (None, Some ''Failed to change directory: Directory does not exist'')
   \<and> CwdStore_get (snd (preprocess_command_for_cwd host_gone ''work'' store2 1 ''cd'' False)) 1
        = ''/srv/work/sub''"
  by code_simp




lemma strip_Nil [simp]: "strip [] = []"
  by (simp add: strip_def strip_chars_def)





section \<open>Properties of summarize_output\<close>

lemma bit_length_bounds: "0 < n \<Longrightarrow> 2 ^ (bit_length n - 1) \<le> n \<and> n < 2 ^ bit_length n"
proof (induction n rule: bit_length.induct)
  case (1 n)
  show ?case
  proof (cases "n div 2 = 0")
    case True
    then have "n = 1" using "1.prems" by (simp add: div_eq_0_iff) 
    then show ?thesis by (simp add: bit_length.simps)
  next
    case False
    then have pos: "0 < n div 2" by simp
    have IH: "2 ^ (bit_length (n div 2) - 1) \<le> n div 2 \<and> n div 2 < 2 ^ bit_length (n div 2)"
      using "1.IH" "1.prems" pos by simp
    have bl: "bit_length n = Suc (bit_length (n div 2))"
      using "1.prems" by (subst bit_length.simps) simp
    have blp: "0 < bit_length (n div 2)"
      using pos by (subst bit_length.simps) simp
    then obtain m where m: "bit_length (n div 2) = Suc m"
      by (cases "bit_length (n div 2)") auto
    have lo: "2 ^ Suc m \<le> n"
    proof -
      have "2 * 2 ^ m \<le> 2 * (n div 2)" using IH m by simp
      also have "\<dots> \<le> n" by simp
      finally show ?thesis by simp
    qed
    have hi: "n < 2 ^ Suc (Suc m)"
    proof -
      have "n div 2 < 2 ^ Suc m" using IH m by simp
      then have "n < 2 * 2 ^ Suc m" by linarith
      then show ?thesis by simp
    qed
    show ?thesis using lo hi bl m by simp
  qed
qed

lemma bit_length_small: "n < 2 ^ k \<Longrightarrow> bit_length n \<le> k"
proof (cases "n = 0")
  case True
  then show ?thesis by (simp add: bit_length.simps)
next
  case False
  assume "n < 2 ^ k"
  have "(2::nat) ^ (bit_length n - 1) \<le> n"
    using bit_length_bounds False by simp
  then have "(2::nat) ^ (bit_length n - 1) < 2 ^ k"
    using \<open>n < 2 ^ k\<close> by linarith
  then have "bit_length n - 1 < k"
    by (simp add: power_strict_increasing_iff)
  then show ?thesis by linarith
qed

lemma round_to_53_exact: "n < 2 ^ 53 \<Longrightarrow> round_to_53 n = n"
proof -
  assume "n < 2 ^ 53"
  then have "bit_length n - 53 = 0"
    using bit_length_small[of n 53] by simp
  then show ?thesis by (simp add: round_to_53_def)
qed

lemma round_to_53_cases:
  assumes "2 ^ 53 \<le> n"
  obtains sh q r where "0 < sh" "n = q * 2 ^ sh + r" "r < 2 ^ sh" "2 ^ 52 \<le> q"
     "round_to_53 n = q * 2 ^ sh \<or> (round_to_53 n = (q + 1) * 2 ^ sh \<and> 2 ^ sh \<le> 2 * r)"
proof -
  define sh where "sh = bit_length n - 53"
  define q where "q = n div 2 ^ sh"
  define r where "r = n mod 2 ^ sh"
  have npos: "0 < n" using assms by (simp add: less_le_trans[of 0 "2 ^ 53" n])
  have b: "2 ^ (bit_length n - 1) \<le> n" "n < 2 ^ bit_length n"
    using bit_length_bounds[OF npos] by simp_all
  have lt: "(2::nat) ^ 53 < 2 ^ bit_length n" using assms b(2) by linarith
  have bl: "53 < bit_length n"
    by (rule power_less_imp_less_exp[of 2, OF _ lt]) simp
  then have sh: "0 < sh" by (simp add: sh_def)
  have n: "n = q * 2 ^ sh + r" unfolding q_def r_def by (rule div_mult_mod_eq[symmetric])
  have r: "r < 2 ^ sh" by (simp add: r_def)
  have "bit_length n - 1 = 52 + sh" using bl by (simp add: sh_def)
  then have "2 ^ 52 * 2 ^ sh \<le> n" using b(1) by (simp add: power_add)
  then have "2 ^ 52 * 2 ^ sh div 2 ^ sh \<le> n div 2 ^ sh" by (rule div_le_mono)
  then have q: "2 ^ 52 \<le> q" by (simp add: q_def)
  have rd: "round_to_53 n = q * 2 ^ sh \<or> (round_to_53 n = (q + 1) * 2 ^ sh \<and> 2 ^ sh \<le> 2 * r)"
    unfolding round_to_53_def Let_def sh_def[symmetric] q_def[symmetric] r_def[symmetric]
    by auto
  show ?thesis using that[OF sh n r q rd] .
qed

lemma round_to_53_lower: "2 ^ 53 \<le> n \<Longrightarrow> 2 ^ 53 \<le> round_to_53 n"
proof -
  assume a: "2 ^ 53 \<le> n"
  obtain sh q r where h: "0 < sh" "n = q * 2 ^ sh + r" "r < 2 ^ sh" "(2::nat) ^ 52 \<le> q"
     "round_to_53 n = q * 2 ^ sh \<or> (round_to_53 n = (q + 1) * 2 ^ sh \<and> 2 ^ sh \<le> 2 * r)"
    using round_to_53_cases[OF a] by blast
  have "(2::nat) ^ 1 \<le> 2 ^ sh" using h(1) by (intro power_increasing) simp_all
  then have "(2::nat) ^ 52 * 2 ^ 1 \<le> q * 2 ^ sh" using h(4) by (rule mult_le_mono[rotated])
  then have "(2::nat) ^ 53 \<le> q * 2 ^ sh" by simp
  moreover have "q * 2 ^ sh \<le> round_to_53 n" using h(5) by auto
  ultimately show ?thesis by linarith
qed

lemma round_to_53_upper: "2 ^ 53 * round_to_53 n \<le> (2 ^ 53 + 1) * n"
proof (cases "n < 2 ^ 53")
  case True
  then show ?thesis by (simp add: round_to_53_exact)
next
  case False
  then have a: "2 ^ 53 \<le> n" by simp
  obtain sh q r where h: "0 < sh" "n = q * 2 ^ sh + r" "r < 2 ^ sh" "(2::nat) ^ 52 \<le> q"
     "round_to_53 n = q * 2 ^ sh \<or> (round_to_53 n = (q + 1) * 2 ^ sh \<and> 2 ^ sh \<le> 2 * r)"
    using round_to_53_cases[OF a] by blast
  define u where "u = (2::nat) ^ sh"
  have qu: "2 ^ 52 * u \<le> q * u" using h(4) by simp
  have nq: "q * u \<le> n" using h(2) by (simp add: u_def)
  from h(5) show ?thesis
  proof
    assume "round_to_53 n = q * 2 ^ sh"
    then have "round_to_53 n \<le> n" using nq by (simp add: u_def)
    then have "2 ^ 53 * round_to_53 n \<le> 2 ^ 53 * n" by simp
    then show ?thesis by simp
  next
    assume up: "round_to_53 n = (q + 1) * 2 ^ sh \<and> 2 ^ sh \<le> 2 * r"
    then have ur: "u \<le> 2 * r" by (simp add: u_def)
    have rn: "round_to_53 n = q * u + u" using up by (simp add: u_def)
    have n': "n = q * u + r" using h(2) by (simp add: u_def)
    have "2 * round_to_53 n \<le> 2 * n + u" using rn n' ur by simp
    moreover have "2 ^ 52 * u \<le> n" using qu nq by linarith
    ultimately have "2 ^ 53 * (2 * round_to_53 n) \<le> 2 ^ 53 * (2 * n) + 2 * n"
      by simp
    then show ?thesis by simp
  qed
qed

lemma round_to_53_no_overflow: "n < 2 ^ 1023 \<Longrightarrow> round_to_53 n < 2 ^ 1024"
proof -
  assume n: "n < 2 ^ 1023"
  define P :: nat where "P = 2 ^ 1023"
  have P: "(2::nat) ^ 1024 = 2 * P" by (simp add: P_def)
  have "2 ^ 53 * round_to_53 n \<le> (2 ^ 53 + 1) * n"
    by (rule round_to_53_upper)
  moreover have "n < P" using n by (simp add: P_def)
  ultimately have "round_to_53 n < 2 * P" by simp
  then show ?thesis by (simp only: P)
qed

lemma float_mul_trunc_bounds:
  assumes "3 \<le> limit" "limit < 2 ^ 1023"
  shows "\<exists>h t. float_mul_trunc limit double_0_6 = Inr (int h)
             \<and> float_mul_trunc limit double_0_35 = Inr (int t)
             \<and> 0 < t \<and> h + t \<le> nat limit
             \<and> (1801 \<le> limit \<longrightarrow> h + t + 90 \<le> nat limit)"
proof -
  define L where "L = nat limit"
  define a where "a = round_to_53 L"
  define R6 where "R6 = round_to_53 (a * double_0_6)"
  define R35 where "R35 = round_to_53 (a * double_0_35)"
  define h where "h = R6 div 2 ^ 53"
  define t where "t = R35 div 2 ^ 53"
  have L3: "3 \<le> L" using assms(1) by (simp add: L_def)
  have "L < 2 ^ 1023"
  proof -
    have "int L < 2 ^ 1023" using assms by (simp add: L_def)
    then have "int L < int (2 ^ 1023)" by simp
    then show ?thesis by (simp only: of_nat_less_iff)
  qed
  then have nov: "\<not> 2 ^ 1024 \<le> a"
    using round_to_53_no_overflow[of L] by (simp add: a_def)
  have abs: "nat \<bar>limit\<bar> = L" using assms(1) by (simp add: L_def)
  have neg: "\<not> limit < 0" using assms(1) by simp
  have f6: "float_mul_trunc limit double_0_6 = Inr (int h)"
    unfolding float_mul_trunc_def Let_def abs a_def[symmetric] R6_def[symmetric] h_def[symmetric]
    using nov neg by simp
  have f35: "float_mul_trunc limit double_0_35 = Inr (int t)"
    unfolding float_mul_trunc_def Let_def abs a_def[symmetric] R35_def[symmetric] t_def[symmetric]
    using nov neg by simp
  have a3: "3 \<le> a"
  proof (cases "L < 2 ^ 53")
    case True
    then show ?thesis using L3 by (simp add: a_def round_to_53_exact)
  next
    case False
    then have "2 ^ 53 \<le> round_to_53 L" by (intro round_to_53_lower) simp
    then show ?thesis by (simp add: a_def)
  qed
  have "2 ^ 53 \<le> a * double_0_35" using a3 by (simp add: double_0_35_def)
  then have "2 ^ 53 \<le> R35" unfolding R35_def by (rule round_to_53_lower)
  then have "2 ^ 53 div 2 ^ 53 \<le> R35 div (2 ^ 53 :: nat)" by (rule div_le_mono)
  then have tpos: "0 < t" by (simp add: t_def)
  have e1: "9007199254740992 * h \<le> R6" by (simp add: h_def)
  have e2: "9007199254740992 * t \<le> R35" by (simp add: t_def)
  have e3: "9007199254740992 * R6 \<le> 9007199254740993 * (a * 5404319552844595)"
    using round_to_53_upper[of "a * double_0_6"] by (simp add: R6_def double_0_6_def)
  have e4: "9007199254740992 * R35 \<le> 9007199254740993 * (a * 3152519739159347)"
    using round_to_53_upper[of "a * double_0_35"] by (simp add: R35_def double_0_35_def)
  have e5: "9007199254740992 * a \<le> 9007199254740993 * L"
    using round_to_53_upper[of L] by (simp add: a_def)
  have le: "h + t \<le> L" using e1 e2 e3 e4 e5 by linarith
  have "h + t + 90 \<le> L" if "1801 \<le> limit"
  proof -
    have "1801 \<le> L" using that by (simp add: L_def)
    then show ?thesis using e1 e2 e3 e4 e5 by linarith
  qed
  then show ?thesis using f6 f35 tpos le unfolding L_def by blast
qed

lemma length_str_nat: "0 < k \<Longrightarrow> n < 10 ^ k \<Longrightarrow> length (str_nat n) \<le> k"
proof (induction n arbitrary: k rule: str_nat.induct)
  case (1 n)
  show ?case
  proof (cases "n < 10")
    case True
    then show ?thesis using "1.prems" by (subst str_nat.simps) simp
  next
    case False
    obtain j where j: "k = Suc j" using "1.prems"(1) by (cases k) auto
    have "j \<noteq> 0" using False "1.prems"(2) j by (cases j) auto
    then have jpos: "0 < j" by simp
    have "n div 10 < 10 ^ j" using "1.prems"(2) j by (simp add: less_mult_imp_div_less mult.commute)
    then have "length (str_nat (n div 10)) \<le> j"
      using "1.IH"[OF False jpos] by simp
    then show ?thesis using False j by (subst str_nat.simps) simp
  qed
qed

lemma length_omitted_marker: "length (omitted_marker n) = 26 + length (str_int n)"
  by (simp add: omitted_marker_def)

lemma float_default:
  "float_mul_trunc 1800 double_0_6 = Inr 1080" "float_mul_trunc 1800 double_0_35 = Inr 630"
  by (simp_all add: float_mul_trunc_def round_to_53_def bit_length.simps double_0_6_def
      double_0_35_def Let_def)

lemma summarize_output_short: "int (length text) \<le> limit \<Longrightarrow> summarize_output text limit = Inr text"
  by (simp add: summarize_output_def)

lemmas summarize_eval = summarize_output_def float_mul_trunc_def round_to_53_def bit_length.simps
  double_0_6_def double_0_35_def Let_def slice_to_def slice_from_def omitted_marker_def
  str_int_def str_nat.simps digit_char_def

text \<open>
  C5 (as amended).  For every limit of at least 3 (and below \<open>2 ^ 1023\<close>, so that the
  conversion to a double does not overflow) and every text longer than the limit,
  \<open>summarize_output\<close> returns the first \<open>h\<close> characters of the text, the marker with the
  number \<open>n\<close>, and the last \<open>t\<close> characters, where \<open>h = int(limit * 0.6)\<close> and
  \<open>t = int(limit * 0.35)\<close> are computed in double precision, \<open>t\<close> is positive,
  \<open>h + t\<close> is at most the limit, and \<open>n = len(text) - h - t\<close> is positive.  At the
  default limit 1800 these are 1080 and 630 (lemma \<open>float_default\<close>).
\<close>

theorem summarize_output_long:
  assumes "3 \<le> limit" "limit < int (length text)" "limit < 2 ^ 1023"
  shows "\<exists>h t. float_mul_trunc limit double_0_6 = Inr (int h)
             \<and> float_mul_trunc limit double_0_35 = Inr (int t)
             \<and> 0 < t \<and> h + t \<le> nat limit
             \<and> summarize_output text limit
                 = Inr (take h text
                        @ omitted_marker (int (length text) - int h - int t)
                        @ drop (length text - t) text)
             \<and> length (take h text) = h
             \<and> length (drop (length text - t) text) = t
             \<and> 0 < int (length text) - int h - int t"
proof -
  obtain h t where ht: "float_mul_trunc limit double_0_6 = Inr (int h)"
      "float_mul_trunc limit double_0_35 = Inr (int t)" "0 < t" "h + t \<le> nat limit"
    using float_mul_trunc_bounds[OF assms(1,3)] by blast
  have len: "h + t < length text" using ht(4) assms(1,2) by linarith
  have lh: "length (take h text) = h" using len by simp
  have lt: "length (drop (length text - t) text) = t" using len by simp
  have tail: "slice_from text (- int t) = drop (length text - t) text"
    using ht(3) by (simp add: slice_from_def)
  have head: "slice_to text (int h) = take h text"
    by (simp add: slice_to_def)
  have "summarize_output text limit
          = Inr (take h text @ omitted_marker (int (length text) - int h - int t)
                 @ drop (length text - t) text)"
    using assms(2) ht(1,2) lh lt by (simp add: summarize_output_def head tail Let_def)
  moreover have "0 < int (length text) - int h - int t" using len by linarith
  ultimately show ?thesis using ht lh lt by blast
qed

theorem summarize_output_long_witness:
  "(3::int) \<le> 1800 \<and> (1800::int) < int (length (replicate 2000 (CHR ''x'')))
   \<and> summarize_output (replicate 2000 (CHR ''x'')) 1800
       = Inr (replicate 1080 (CHR ''x'') @ omitted_marker 290 @ replicate 630 (CHR ''x''))"
proof -
  have a: "(3::int) \<le> 1800" by simp
  have b: "(1800::int) < int (length (replicate 2000 (CHR ''x'')))" by simp
  have c: "(1800::int) < 2 ^ 1023" by simp
  obtain h t where ht: "float_mul_trunc 1800 double_0_6 = Inr (int h)"
      "float_mul_trunc 1800 double_0_35 = Inr (int t)"
      "summarize_output (replicate 2000 (CHR ''x'')) 1800
         = Inr (take h (replicate 2000 (CHR ''x''))
                @ omitted_marker (int (length (replicate 2000 (CHR ''x''))) - int h - int t)
                @ drop (length (replicate 2000 (CHR ''x'')) - t) (replicate 2000 (CHR ''x'')))"
    using summarize_output_long[OF a b c] by blast
  have h: "h = 1080" using ht(1) float_default(1) by simp
  have t: "t = 630" using ht(2) float_default(2) by simp
  show ?thesis using ht(3) a b unfolding h t by simp
qed

text \<open>
  The claim as stated fails below limit 3, where \<open>int(limit * 0.35)\<close> is 0 and the slice
  \<open>text[-0:]\<close> is the whole text: for \<open>"abc"\<close> and limit 2 the tail is \<open>"abc"\<close> and
  \<open>n\<close> is -1.  The tail length is also not always the floor of 0.35 times the limit: at
  limit 180 the double product is 62.99999999999999 and the tail has 62 characters.
\<close>

theorem summarize_output_small_limit:
  "summarize_output ''abc'' 2 = Inr ''a\<newline>...\<newline>[omitted -1 chars]\<newline>...\<newline>abc''
   \<and> summarize_output (replicate 181 (CHR ''x'')) 180
       = Inr (replicate 108 (CHR ''x'') @ omitted_marker 11 @ replicate 62 (CHR ''x''))
   \<and> (35 * 180) div 100 = (63::nat)"
  by (simp add: summarize_eval)

text \<open>
  C4 (as amended).  For every limit and every text no longer than the limit,
  \<open>summarize_output\<close> returns the text unchanged.  For every limit from the default
  1800 upwards it is idempotent on every text shorter than \<open>10 ^ 64\<close> characters: the
  two slices leave at least 90 characters of the limit, the marker has at most 90, so
  the summary is no longer than the limit and summarising it again returns it unchanged.
\<close>

theorem summarize_output_idempotent_large_limit:
  "(int (length text) \<le> limit \<longrightarrow> summarize_output text limit = Inr text)
   \<and> (1800 \<le> limit \<and> length text < 10 ^ 64 \<longrightarrow>
        (\<exists>s. summarize_output text limit = Inr s \<and> summarize_output s limit = Inr s))"
proof -
  have idem: "\<exists>s. summarize_output text limit = Inr s \<and> summarize_output s limit = Inr s"
    if big: "1800 \<le> limit" and small: "length text < 10 ^ 64"
  proof (cases "int (length text) \<le> limit")
    case True
    then show ?thesis by (simp add: summarize_output_short)
  next
    case False
    then have long: "limit < int (length text)" by simp
    have "int (length text) < int (10 ^ 64)" using small by (simp only: of_nat_less_iff)
    then have "limit < 10 ^ 64" using long by simp
    moreover have "(10::int) ^ 64 < 2 ^ 1023" by simp
    ultimately have lim: "limit < 2 ^ 1023" by linarith
    have three: "3 \<le> limit" using big by simp
    obtain h t where ht: "float_mul_trunc limit double_0_6 = Inr (int h)"
        "float_mul_trunc limit double_0_35 = Inr (int t)" "0 < t" "h + t \<le> nat limit"
        "1801 \<le> limit \<longrightarrow> h + t + 90 \<le> nat limit"
      using float_mul_trunc_bounds[OF three lim] by blast
    have room: "h + t + 90 \<le> nat limit"
    proof (cases "limit = 1800")
      case True
      then have "h = 1080" "t = 630" using ht(1,2) float_default by simp_all
      then show ?thesis using True by simp
    next
      case False
      then show ?thesis using big ht(5) by simp
    qed
    have len: "h + t < length text" using ht(4) three long by linarith
    define n where "n = length text - h - t"
    define s where "s = take h text @ omitted_marker (int n) @ drop (length text - t) text"
    have tail: "slice_from text (- int t) = drop (length text - t) text"
      using ht(3) by (simp add: slice_from_def)
    have head: "slice_to text (int h) = take h text"
      by (simp add: slice_to_def)
    have om: "int (length text) - int h - int t = int n"
      using len by (simp add: n_def)
    have lh: "length (take h text) = h" using len by simp
    have lt: "length (drop (length text - t) text) = t" using len by simp
    have first: "summarize_output text limit = Inr s"
      using long ht(1,2) lh lt by (simp add: summarize_output_def head tail Let_def om s_def)
    have "n < 10 ^ 64" using small by (simp add: n_def)
    then have "length (str_nat n) \<le> 64" by (intro length_str_nat) simp_all
    then have "length (omitted_marker (int n)) \<le> 90"
      by (simp add: length_omitted_marker str_int_def)
    then have "length s \<le> h + t + 90" using lh lt by (simp add: s_def)
    then have "int (length s) \<le> limit" using room three by linarith
    then have "summarize_output s limit = Inr s"
      by (rule summarize_output_short)
    with first show ?thesis by blast
  qed
  show ?thesis using idem summarize_output_short by blast
qed

theorem summarize_output_idempotent_large_limit_witness:
  "summarize_output ''abc'' 10 = Inr ''abc''
   \<and> summarize_output (replicate 2000 (CHR ''x'')) 1800
       = Inr (replicate 1080 (CHR ''x'') @ omitted_marker 290 @ replicate 630 (CHR ''x''))
   \<and> summarize_output (replicate 1080 (CHR ''x'') @ omitted_marker 290 @ replicate 630 (CHR ''x'')) 1800
       = Inr (replicate 1080 (CHR ''x'') @ omitted_marker 290 @ replicate 630 (CHR ''x''))"
proof -
  have a: "int (length ''abc'') \<le> 10" by simp
  have b: "(1800::int) \<le> 1800 \<and> length (replicate 2000 (CHR ''x'')) < 10 ^ 64" by simp
  have first: "summarize_output (replicate 2000 (CHR ''x'')) 1800
       = Inr (replicate 1080 (CHR ''x'') @ omitted_marker 290 @ replicate 630 (CHR ''x''))"
    by (simp add: summarize_output_def float_default slice_to_def slice_from_def Let_def)
  have short: "summarize_output ''abc'' 10 = Inr ''abc''"
    using summarize_output_idempotent_large_limit[of "''abc''" 10] a by blast
  obtain s where s: "summarize_output (replicate 2000 (CHR ''x'')) 1800 = Inr s"
      "summarize_output s 1800 = Inr s"
    using summarize_output_idempotent_large_limit[of "replicate 2000 (CHR ''x'')" 1800] b by blast
  have "s = replicate 1080 (CHR ''x'') @ omitted_marker 290 @ replicate 630 (CHR ''x'')"
    using s(1) first by simp
  then show ?thesis using short first s(2) by simp
qed

text \<open>
  The claim as stated (idempotent for every limit) fails for a small limit, where the
  summary is longer than the limit and is cut again: at limit 10 the summary of the
  alphabet reports 17 omitted characters, and the summary of that summary reports 28.
\<close>

theorem summarize_output_not_idempotent:
  "summarize_output ''abcdefghijklmnopqrstuvwxyz'' 10
     = Inr ''abcdef\<newline>...\<newline>[omitted 17 chars]\<newline>...\<newline>xyz''
   \<and> summarize_output ''abcdef\<newline>...\<newline>[omitted 17 chars]\<newline>...\<newline>xyz'' 10
     = Inr ''abcdef\<newline>...\<newline>[omitted 28 chars]\<newline>...\<newline>xyz''
   \<and> ''abcdef\<newline>...\<newline>[omitted 17 chars]\<newline>...\<newline>xyz''
     \<noteq> ''abcdef\<newline>...\<newline>[omitted 28 chars]\<newline>...\<newline>xyz''"
  by (simp add: summarize_eval)

section \<open>Properties of run_command\<close>

text \<open>
  C3.  Whenever waiting for the command runs into the timeout (\<open>wait_for\<close> raises
  \<open>TimeoutError\<close>), \<open>run_command\<close> kills the child, waits for it to end, and returns, rather
  than raising, the result with exit code 124, an empty \<open>stdout\<close> and the text
  \<open>Command timed out\<close> in \<open>stderr\<close>.  The calls on the child are the spawn, the
  \<open>communicate\<close> that timed out, \<open>kill\<close> and \<open>wait\<close>, in this order.
\<close>

theorem run_command_timeout:
  assumes "fst (sys w (wrap_command_for_shell command (detect_os (platform_system w)))
                  (or_else work_dir (getcwd w)) timeout) = TimedOut"
  shows "fst (run_command sys w command work_dir timeout)
           = Inr \<lparr>res_command = command, exit_code = 124, stdout = [],
                  stderr = ''Command timed out''\<rparr>
       \<and> fst (snd (run_command sys w command work_dir timeout))
           = [Spawn (wrap_command_for_shell command (detect_os (platform_system w)))
                (or_else work_dir (getcwd w)),
              Communicate, Kill, Wait]"
proof -
  obtain w' where "sys w (wrap_command_for_shell command (detect_os (platform_system w)))
                  (or_else work_dir (getcwd w)) timeout = (TimedOut, w')"
    using assms by (metis prod.collapse)
  then show ?thesis by (simp add: run_command_def Let_def)
qed

theorem run_command_timeout_witness:
  "fst (invoke_sleep host1 (wrap_command_for_shell ''sleep 100'' (detect_os (platform_system host1)))
          (or_else (Some ''/srv/work'') (getcwd host1)) 60) = TimedOut
   \<and> fst (run_command invoke_sleep host1 ''sleep 100'' (Some ''/srv/work'') 60)
       = Inr \<lparr>res_command = ''sleep 100'', exit_code = 124, stdout = [],
              stderr = ''Command timed out''\<rparr>
   \<and> fst (snd (run_command invoke_sleep host1 ''sleep 100'' (Some ''/srv/work'') 60))
       = [Spawn [''/bin/bash'', ''-lc'', ''sleep 100''] ''/srv/work'', Communicate, Kill, Wait]"
proof -
  have a: "wrap_command_for_shell ''sleep 100'' (detect_os (platform_system host1))
             = [''/bin/bash'', ''-lc'', ''sleep 100'']"
    by (simp add: wrap_command_for_shell_def detect_os_def host1_def)
  have b: "or_else (Some ''/srv/work'') (getcwd host1) = ''/srv/work''"
    by (simp add: or_else_def)
  have h: "fst (invoke_sleep host1 (wrap_command_for_shell ''sleep 100'' (detect_os (platform_system host1)))
          (or_else (Some ''/srv/work'') (getcwd host1)) 60) = TimedOut"
    unfolding a b by (simp add: invoke_sleep_def)
  note th = run_command_timeout[of invoke_sleep host1 "''sleep 100''" "Some ''/srv/work''" 60, OF h]
  from th h show ?thesis
    unfolding a b by simp
qed

section \<open>Properties of the chat handler\<close>

text \<open>
  C9.  \<open>to_commands_from_nl\<close> returns the empty list when the reply holds the array
  \<open>[]\<close>.  The handler tests \<open>len(commands) <= 1\<close> and then reads \<open>commands[0]\<close>: on the
  empty list this raises \<open>IndexError\<close>, and the handler ends with the exception before it
  sends anything.
\<close>

theorem on_message_chat_empty_plan:
  "to_commands_from_nl (Some (JList [])) 5 one = []
   \<and> on_message_chat cfg key (to_commands_from_nl (Some (JList [])) 5 one) b
       = (Some (IndexError ''list index out of range''), b)"
  by (simp add: to_commands_from_nl_def slice_list_to_def on_message_chat_def)

lemma summarize_default_ok: "\<exists>s. summarize_output text 1800 = Inr s"
  by (simp add: summarize_output_def float_default Let_def)

lemma stream_part_ok: "\<exists>s. stream_part label txt ending = Inr s"
proof -
  obtain s where "summarize_output txt 1800 = Inr s"
    using summarize_default_ok by blast
  then show ?thesis by (simp add: stream_part_def)
qed

lemma build_report_ok: "\<exists>r. build_report prefix result = Inr r"
proof -
  obtain out where out: "stream_part ''stdout'' (stdout result) ''\<newline>'' = Inr out"
    using stream_part_ok by blast
  obtain err where err: "stream_part ''stderr'' (stderr result) [] = Inr err"
    using stream_part_ok by blast
  show ?thesis unfolding build_report_def out err by simp
qed

lemma plan_loop_append:
  "plan_loop cfg key osname n idx (pre @ rest) b =
     (case plan_loop cfg key osname n idx pre b of
        (Continue, b1) \<Rightarrow> plan_loop cfg key osname n (idx + length pre) rest b1
      | (r, b1) \<Rightarrow> (r, b1))"
proof (induction pre arbitrary: idx b)
  case Nil
  then show ?case by simp
next
  case (Cons c pre)
  obtain r b' where s: "plan_step cfg key osname n idx c b = (r, b')"
    by (cases "plan_step cfg key osname n idx c b") auto
  show ?case
  proof (cases r)
    case Continue
    then show ?thesis using s Cons.IH[of "Suc idx" b']
      by (simp split: prod.splits step_end.splits)
  next
    case Stopped
    then show ?thesis using s by simp
  next
    case (Raised e)
    then show ?thesis using s by simp
  qed
qed

lemma plan_step_failure:
  assumes "preprocess_command_for_cwd (host b) (WORK_DIR cfg) (cwd_store b) key cmd
             (os_is_windows (detect_os (platform_system (host b)))) = ((remainder, changed), store')"
      and "\<not> (truthy changed \<and> \<not> truthy remainder)"
      and "run_command (invoke cfg) (host b) (or_else remainder cmd)
             (Some (CwdStore_get store' key)) (COMMAND_TIMEOUT_SEC cfg) = (Inr result, acts, w')"
      and "exit_code result \<noteq> 0"
      and "build_report (''OS: '' @ osname @ ''\<newline>'') result = Inr report"
  shows "plan_step cfg key osname n idx cmd b =
           (Stopped, \<lparr>cwd_store = store', host = w',
                      sent = sent b @ [step_tag idx n @ ''$ '' @ cmd, report,
                                       ''Stopped due to error at step '' @ str_nat idx @ ''.''],
                      procs = procs b @ acts\<rparr>)"
  using assms by (simp add: plan_step_def send_def Let_def)

lemma mkdir_passes:
  "preprocess_command_for_cwd host1 ''work'' store1 1 ''mkdir x'' False
     = ((Some ''mkdir x'', None), store1)"
proof -
  have s: "strip ''mkdir x'' = ''mkdir x''" by code_simp
  have a: "re_match False (if False then cd_regex_windows else cd_regex) (strip ''mkdir x'') = None"
    by code_simp
  have b: "re_match False bare_cd_regex (strip ''mkdir x'') = None"
    by code_simp
  show ?thesis using preprocess_other[OF _ a b, of host1 "''work''" store1 1] s by simp
qed

lemma mkdir_report:
  "build_report (''OS: '' @ ''Linux'' @ ''\<newline>'')
     \<lparr>res_command = ''mkdir x'', exit_code = 1, stdout = [],
      stderr = ''mkdir: cannot create directory''\<rparr>
   = Inr ''OS: Linux\<newline>exit=1\<newline>stderr:\<newline>mkdir: cannot create directory''"
  by (simp add: build_report_def stream_part_def summarize_output_def str_int_def str_nat.simps
      digit_char_def)

text \<open>
  C2.  A plan of more than one command is run by the loop, step by step in the order of
  the list.  Let the steps before a step all have ended without stopping the loop, and
  let this step reach \<open>run_command\<close> and get a result with a nonzero exit code.  Then the
  handler sends the step's header and its report, then the notice
  \<open>Stopped due to error at step i.\<close>, and returns: the messages and the calls on child
  processes end there, whatever commands follow in the plan.  For a plan whose first
  step fails this leaves the planning notice, one header and report, and the stop notice.
\<close>

theorem plan_stops_at_first_failure:
  assumes "commands = pre @ cmd # post"
      and "1 < length commands"
      and "osname = os_name (detect_os (platform_system (host b)))"
      and "plan_loop cfg key osname (length commands) 1 pre (send b (planning_notice (length commands)))
             = (Continue, b1)"
      and "preprocess_command_for_cwd (host b1) (WORK_DIR cfg) (cwd_store b1) key cmd
             (os_is_windows (detect_os (platform_system (host b1)))) = ((remainder, changed), store')"
      and "\<not> (truthy changed \<and> \<not> truthy remainder)"
      and "run_command (invoke cfg) (host b1) (or_else remainder cmd)
             (Some (CwdStore_get store' key)) (COMMAND_TIMEOUT_SEC cfg) = (Inr result, acts, w')"
      and "exit_code result \<noteq> 0"
  shows "\<exists>report. build_report (''OS: '' @ osname @ ''\<newline>'') result = Inr report
           \<and> on_message_chat cfg key commands b =
               (None, \<lparr>cwd_store = store', host = w',
                        sent = sent b1 @ [step_tag (Suc (length pre)) (length commands) @ ''$ '' @ cmd,
                                          report,
                                          ''Stopped due to error at step ''
                                            @ str_nat (Suc (length pre)) @ ''.''],
                        procs = procs b1 @ acts\<rparr>)"
proof -
  obtain report where rep: "build_report (''OS: '' @ osname @ ''\<newline>'') result = Inr report"
    using build_report_ok by blast
  let ?n = "length commands"
  let ?b0 = "send b (planning_notice ?n)"
  let ?end = "\<lparr>cwd_store = store', host = w',
                sent = sent b1 @ [step_tag (Suc (length pre)) ?n @ ''$ '' @ cmd, report,
                                  ''Stopped due to error at step '' @ str_nat (Suc (length pre)) @ ''.''],
                procs = procs b1 @ acts\<rparr>"
  have step: "plan_step cfg key osname ?n (Suc (length pre)) cmd b1 = (Stopped, ?end)"
    using plan_step_failure[OF assms(5,6,7,8) rep] by simp
  have "plan_loop cfg key osname ?n 1 (pre @ cmd # post) ?b0
          = plan_loop cfg key osname ?n (1 + length pre) (cmd # post) b1"
    unfolding plan_loop_append assms(4) by simp
  also have "\<dots> = (Stopped, ?end)"
    using step by simp
  finally have loop: "plan_loop cfg key osname ?n 1 commands ?b0 = (Stopped, ?end)"
    using assms(1) by simp
  have h: "host ?b0 = host b" by (simp add: send_def)
  have "on_message_chat cfg key commands b =
          (case plan_loop cfg key osname ?n 1 commands ?b0 of
             (Raised e, b') \<Rightarrow> (Some e, b')
           | (r, b') \<Rightarrow> (None, b'))"
    using assms(2) unfolding on_message_chat_def Let_def h assms(3) by simp
  then have "on_message_chat cfg key commands b = (None, ?end)"
    unfolding loop by simp
  with rep show ?thesis by blast
qed

theorem plan_stops_at_first_failure_witness:
  "on_message_chat config1 1 [''mkdir x'', ''cd x'', ''pwd''] bot1 =
     (None, \<lparr>cwd_store = store1, host = host1,
              sent = [planning_notice 3, ''[1/3] $ mkdir x'',
                      ''OS: Linux\<newline>exit=1\<newline>stderr:\<newline>mkdir: cannot create directory'',
                      ''Stopped due to error at step 1.''],
              procs = [Spawn [''/bin/bash'', ''-lc'', ''mkdir x''] ''/srv/work'', Communicate]\<rparr>)"
proof -
  let ?res = "\<lparr>res_command = ''mkdir x'', exit_code = 1, stdout = [],
               stderr = ''mkdir: cannot create directory''\<rparr>"
  let ?acts = "[Spawn [''/bin/bash'', ''-lc'', ''mkdir x''] ''/srv/work'', Communicate]"
  let ?b1 = "send bot1 (planning_notice (length [''mkdir x'', ''cd x'', ''pwd'']))"
  have hb: "host ?b1 = host1" "cwd_store ?b1 = store1" "sent ?b1 = [planning_notice 3]"
      "procs ?b1 = []"
    by (simp_all add: send_def bot1_def numeral_3_eq_3)
  have os: "detect_os (platform_system host1)
              = \<lparr>os_name = ''Linux'', os_shell = ''/bin/bash'', os_is_windows = False\<rparr>"
    by (simp add: detect_os_def host1_def)
  have run: "run_command (invoke config1) host1 (or_else (Some ''mkdir x'') ''mkdir x'')
               (Some (CwdStore_get store1 1)) (COMMAND_TIMEOUT_SEC config1)
             = (Inr ?res, ?acts, host1)"
    by (simp add: run_command_def os wrap_command_for_shell_def or_else_def config1_def
        invoke_mkdir_fails_def CwdStore_get_def store1_def Let_def)
  have "\<exists>report. build_report (''OS: '' @ ''Linux'' @ ''\<newline>'') ?res = Inr report
           \<and> on_message_chat config1 1 [''mkdir x'', ''cd x'', ''pwd''] bot1 =
               (None, \<lparr>cwd_store = store1, host = host1,
                        sent = sent ?b1 @ [step_tag (Suc (length ([]::string list)))
                                             (length [''mkdir x'', ''cd x'', ''pwd'']) @ ''$ '' @ ''mkdir x'',
                                          report,
                                          ''Stopped due to error at step ''
                                            @ str_nat (Suc (length ([]::string list))) @ ''.''],
                        procs = procs ?b1 @ ?acts\<rparr>)"
  proof (rule plan_stops_at_first_failure[where pre = "[]" and post = "[''cd x'', ''pwd'']"
        and remainder = "Some ''mkdir x''" and changed = None])
    show "[''mkdir x'', ''cd x'', ''pwd''] = [] @ ''mkdir x'' # [''cd x'', ''pwd'']" by simp
    show "1 < length [''mkdir x'', ''cd x'', ''pwd'']" by simp
    show "''Linux'' = os_name (detect_os (platform_system (host bot1)))"
      by (simp add: bot1_def os)
    show "plan_loop config1 1 ''Linux'' (length [''mkdir x'', ''cd x'', ''pwd'']) 1 [] ?b1
            = (Continue, ?b1)" by simp
    show "preprocess_command_for_cwd (host ?b1) (WORK_DIR config1) (cwd_store ?b1) 1 ''mkdir x''
             (os_is_windows (detect_os (platform_system (host ?b1))))
            = ((Some ''mkdir x'', None), store1)"
      unfolding hb os using mkdir_passes by (simp add: config1_def)
    show "\<not> (truthy None \<and> \<not> truthy (Some ''mkdir x''))" by simp
    show "run_command (invoke config1) (host ?b1) (or_else (Some ''mkdir x'') ''mkdir x'')
               (Some (CwdStore_get store1 1)) (COMMAND_TIMEOUT_SEC config1)
             = (Inr ?res, ?acts, host1)"
      unfolding hb by (rule run)
    show "exit_code ?res \<noteq> 0" by simp
  qed
  then obtain report where r: "build_report (''OS: '' @ ''Linux'' @ ''\<newline>'') ?res = Inr report"
    and m: "on_message_chat config1 1 [''mkdir x'', ''cd x'', ''pwd''] bot1 =
               (None, \<lparr>cwd_store = store1, host = host1,
                        sent = sent ?b1 @ [step_tag (Suc (length ([]::string list)))
                                             (length [''mkdir x'', ''cd x'', ''pwd'']) @ ''$ '' @ ''mkdir x'',
                                          report,
                                          ''Stopped due to error at step ''
                                            @ str_nat (Suc (length ([]::string list))) @ ''.''],
                        procs = procs ?b1 @ ?acts\<rparr>)"
    by blast
  have rep: "report = ''OS: Linux\<newline>exit=1\<newline>stderr:\<newline>mkdir: cannot create directory''"
    using r mkdir_report by simp
  have tag: "step_tag (Suc (length ([]::string list))) (length [''mkdir x'', ''cd x'', ''pwd''])
               @ ''$ '' @ ''mkdir x'' = ''[1/3] $ mkdir x''"
    by (simp add: step_tag_def str_nat.simps digit_char_def)
  have stop: "''Stopped due to error at step '' @ str_nat (Suc (length ([]::string list))) @ ''.''
               = ''Stopped due to error at step 1.''"
    by (simp add: str_nat.simps digit_char_def)
  show ?thesis
    unfolding m rep tag stop hb by simp
qed

end
